theory Spec2Isabelle
  imports Main "HOL-Library.Multiset"
begin

section \<open>Strings and numbers of the host language\<close>

text \<open>
  A string of the program is a \<^typ>\<open>string\<close>; a \<^typ>\<open>char\<close> stands for the code unit of
  the same value (code units below 256).  The counters \<open>nextId\<close> and \<open>nextOutputId\<close>
  are numbers that start at 1 and are only ever incremented; they are modelled by
  \<^typ>\<open>nat\<close> (the program's numbers are exact on integers up to \<open>2 ^ 53\<close>, a value
  the counters reach only after that many increments, and \<open>String\<close> prints integers
  of that size in plain decimal digits).
\<close>

text \<open>The white space and line terminators that \<open>String.prototype.trim\<close> strips
  (those below 256): TAB, LF, VT, FF, CR, SPACE, NBSP.\<close>

definition isWhiteSpace :: "char \<Rightarrow> bool" where
  "isWhiteSpace c = (c \<in> set [CHR 0x09, CHR 0x0A, CHR 0x0B, CHR 0x0C, CHR 0x0D, CHR 0x20, CHR 0xA0])"

definition trim :: "string \<Rightarrow> string" where
  "trim s = rev (dropWhile isWhiteSpace (rev (dropWhile isWhiteSpace s)))"

text \<open>\<open>a || b\<close> on strings where \<open>a\<close> may be \<open>undefined\<close>: the empty string and
  \<open>undefined\<close> are falsy.\<close>

definition or_else :: "string option \<Rightarrow> string \<Rightarrow> string" where
  "or_else a b = (case a of None \<Rightarrow> b | Some x \<Rightarrow> if x = [] then b else x)"

text \<open>\<open>String(n)\<close> for a non-negative integer: its decimal digits.\<close>

definition digit_char :: "nat \<Rightarrow> char" where
  "digit_char d = ''0123456789'' ! d"

fun String_of :: "nat \<Rightarrow> string" where
  "String_of n = (if n < 10 then [digit_char n] else String_of (n div 10) @ [digit_char (n mod 10)])"

declare String_of.simps [simp del]

text \<open>\<open>s.split(c)\<close> for a one-character separator, and \<open>xs[i]\<close> (\<open>undefined\<close> out of range).\<close>

fun split_str :: "char \<Rightarrow> string \<Rightarrow> string list" where
  "split_str c [] = [[]]"
| "split_str c (x # xs) =
     (if x = c then [] # split_str c xs
      else (case split_str c xs of [] \<Rightarrow> [[x]] | p # ps \<Rightarrow> (x # p) # ps))"

fun nth_opt :: "'a list \<Rightarrow> nat \<Rightarrow> 'a option" where
  "nth_opt [] i = None"
| "nth_opt (x # xs) 0 = Some x"
| "nth_opt (x # xs) (Suc i) = nth_opt xs i"

text \<open>\<open>s.startsWith(p)\<close>.\<close>

definition startsWith :: "string \<Rightarrow> string \<Rightarrow> bool" where
  "startsWith s p = (take (length p) s = p)"

section \<open>Arrays\<close>

text \<open>\<open>xs.findIndex(P)\<close>: the index of the first element satisfying \<open>P\<close>, or \<open>-1\<close>.\<close>

fun findIndex :: "('a \<Rightarrow> bool) \<Rightarrow> 'a list \<Rightarrow> int" where
  "findIndex P [] = - 1"
| "findIndex P (x # xs) =
     (if P x then 0 else (let i = findIndex P xs in if i = - 1 then - 1 else i + 1))"

text \<open>\<open>xs.splice(start, deleteCount, ...items)\<close>: returns the removed elements and the
  array afterwards.  A negative \<open>start\<close> counts from the end, and \<open>start\<close> is clamped to
  the array.\<close>

definition splice_arr :: "int \<Rightarrow> nat \<Rightarrow> 'a list \<Rightarrow> 'a list \<Rightarrow> 'a list \<times> 'a list" where
  "splice_arr start deleteCount items xs =
     (let len = int (length xs);
          k = nat (if start < 0 then max (len + start) 0 else min start len);
          d = min deleteCount (length xs - k)
      in (take d (drop k xs), take k xs @ items @ drop (k + d) xs))"

text \<open>Mutation of the object that \<open>xs.find(P)\<close> returned: the first element
  satisfying \<open>P\<close> is changed in place.\<close>

fun update_first :: "('a \<Rightarrow> bool) \<Rightarrow> ('a \<Rightarrow> 'a) \<Rightarrow> 'a list \<Rightarrow> 'a list" where
  "update_first P f [] = []"
| "update_first P f (x # xs) = (if P x then f x # xs else x # update_first P f xs)"

section \<open>Data model\<close>

text \<open>A thrown value: \<open>null\<close> or \<open>undefined\<close> (\<open>Nullish\<close>), whose properties cannot be
  read, or any other value; \<open>message\<close> is then its \<open>.message\<close> property, \<open>undefined\<close>
  when the value has none.  \<open>TypeError\<close> is what reading a property of \<open>null\<close> or
  \<open>undefined\<close> throws (the wording of its message differs between engines).\<close>

datatype error = Nullish | Error (message: "string option")

definition TypeError :: error where
  "TypeError = Error (Some ''Cannot read properties of null or undefined'')"

text \<open>A \<open>Blob\<close> (or \<open>File\<close>): its bytes and its \<open>type\<close>.\<close>

record blob =
  blob_bytes :: string
  blob_type :: string

record image =
  img_blob :: blob
  img_mimeType :: string
  img_dataUrl :: string

record message =
  m_id :: string
  m_text :: string
  m_image :: "image option"

record output_item =
  o_id :: string
  o_imageUrl :: "string option"
  o_text :: string
  o_loading :: bool

text \<open>What \<open>saveMessages\<close> writes for one message: the image without its \<open>dataUrl\<close>.\<close>

record stored_message =
  sm_id :: string
  sm_text :: string
  sm_image :: "(blob \<times> string) option"

text \<open>Parts of a request, and the request passed to \<open>generateContentStream\<close>.\<close>

datatype part =
  Text string
| InlineData (data: "string option") (mimeType: string)

record config =
  responseModalities :: "string list"
  systemInstruction :: "string option"

record content =
  c_role :: string
  c_parts :: "part list"

record request =
  r_model :: string
  r_config :: config
  r_contents :: "content list"

text \<open>A chunk of a streamed response: \<open>chunk_parts\<close> is
  \<open>chunk.candidates?.[0]?.content?.parts\<close> and \<open>chunk_text\<close> is \<open>chunk.text\<close>; a part of
  a response has an optional \<open>inlineData\<close> (with optional \<open>mimeType\<close> and \<open>data\<close>) and an
  optional \<open>text\<close>.\<close>

record resp_part =
  rp_inlineData :: "(string option \<times> string option) option"
  rp_text :: "string option"

record chunk =
  chunk_parts :: "resp_part list option"
  chunk_text :: "string option"

text \<open>A finite streamed response: the chunks it yields, then either the end of the stream
  (\<open>None\<close>) or a thrown error.\<close>

record response_stream =
  rs_chunks :: "chunk list"
  rs_error :: "error option"

text \<open>Templates (\<open>types.ts\<close>).\<close>

datatype role = System | User | Model

record templateMessage =
  tm_role :: role
  tm_text :: string
  tm_image :: "string option"

type_synonym template = "templateMessage list"

text \<open>
  The state of a \<open>GeminiImageManipulator\<close>: its fields, the two input elements it reads,
  and what it has done to its collaborators: the messages and outputs each call of
  \<open>renderMessages\<close> and \<open>renderOutputs\<close> drew, the alerts shown, the values written to
  the key-value store, and the requests submitted to the API.
\<close>

record state =
  messages :: "message list"
  nextId :: nat
  outputs :: "output_item list"
  nextOutputId :: nat
  draggedId :: "string option"
  apiKeyInput :: string
  systemMessage :: string
  rendered_messages :: "message list list"
  rendered_outputs :: "output_item list list"
  alerts :: "string list"
  store_systemMessage :: "string option"
  store_messages :: "stored_message list option"
  store_outputs :: "output_item list option"
  requests :: "request list"

definition MODEL :: string where
  "MODEL = ''gemini-2.5-flash-image-preview''"

definition TEXT_MODEL :: string where
  "TEXT_MODEL = ''gemini-2.5-flash''"

definition PLACEHOLDER_IMAGE :: string where
  "PLACEHOLDER_IMAGE = ''https://placehold.co/800''"

text \<open>The state the constructor builds, before \<open>loadState\<close>.\<close>

definition init :: state where
  "init = \<lparr>messages = [], nextId = 1, outputs = [], nextOutputId = 1, draggedId = None,
     apiKeyInput = [], systemMessage = [], rendered_messages = [], rendered_outputs = [],
     alerts = [], store_systemMessage = None, store_messages = None, store_outputs = None,
     requests = []\<rparr>"

section \<open>Collaborators: rendering, persistence, alerts\<close>

definition renderMessages :: "state \<Rightarrow> state" where
  "renderMessages s = s\<lparr>rendered_messages := rendered_messages s @ [messages s]\<rparr>"

definition renderOutputs :: "state \<Rightarrow> state" where
  "renderOutputs s = s\<lparr>rendered_outputs := rendered_outputs s @ [outputs s]\<rparr>"

definition alert :: "string \<Rightarrow> state \<Rightarrow> state" where
  "alert msg s = s\<lparr>alerts := alerts s @ [msg]\<rparr>"

definition saveSystemMessage :: "string \<Rightarrow> state \<Rightarrow> state" where
  "saveSystemMessage msg s = s\<lparr>store_systemMessage := Some msg\<rparr>"

definition serializable :: "message \<Rightarrow> stored_message" where
  "serializable msg =
     \<lparr>sm_id = m_id msg, sm_text = m_text msg,
      sm_image = (case m_image msg of None \<Rightarrow> None
                  | Some i \<Rightarrow> Some (img_blob i, img_mimeType i))\<rparr>"

definition saveMessages :: "state \<Rightarrow> state" where
  "saveMessages s = s\<lparr>store_messages := Some (map serializable (messages s))\<rparr>"

definition saveOutputs :: "state \<Rightarrow> state" where
  "saveOutputs s = s\<lparr>store_outputs := Some (filter (\<lambda>out. \<not> o_loading out) (outputs s))\<rparr>"

section \<open>Message management\<close>

definition addItem :: "state \<Rightarrow> state" where
  "addItem s =
     (let ident = String_of (nextId s);
          s1 = s\<lparr>nextId := nextId s + 1\<rparr>;
          s2 = s1\<lparr>messages := messages s1 @ [\<lparr>m_id = ident, m_text = [], m_image = None\<rparr>]\<rparr>
      in saveMessages (renderMessages s2))"

definition deleteMessage :: "string \<Rightarrow> state \<Rightarrow> state" where
  "deleteMessage ident s =
     saveMessages (renderMessages (s\<lparr>messages := filter (\<lambda>msg. m_id msg \<noteq> ident) (messages s)\<rparr>))"

definition deleteAllMessages :: "state \<Rightarrow> state" where
  "deleteAllMessages s = saveMessages (renderMessages (s\<lparr>messages := []\<rparr>))"

definition updateMessageText :: "string \<Rightarrow> string \<Rightarrow> state \<Rightarrow> state" where
  "updateMessageText ident text s =
     (case find (\<lambda>msg. m_id msg = ident) (messages s) of
        None \<Rightarrow> s
      | Some _ \<Rightarrow>
          saveMessages (s\<lparr>messages :=
            update_first (\<lambda>msg. m_id msg = ident) (\<lambda>msg. msg\<lparr>m_text := text\<rparr>) (messages s)\<rparr>))"

text \<open>\<open>blobToDataUrl\<close> reads the blob with a \<open>FileReader\<close>, which either loads (the data
  URL) or fails; the reader is the parameter \<open>readAsDataURL\<close>.\<close>

definition blobToDataUrl :: "(blob \<Rightarrow> error + string) \<Rightarrow> blob \<Rightarrow> error + string" where
  "blobToDataUrl readAsDataURL b = readAsDataURL b"

definition blobToBase64 :: "(blob \<Rightarrow> error + string) \<Rightarrow> blob \<Rightarrow> error + string option" where
  "blobToBase64 readAsDataURL b =
     (case readAsDataURL b of
        Inl e \<Rightarrow> Inl e
      | Inr dataUrl \<Rightarrow> Inr (nth_opt (split_str CHR '','' dataUrl) 1))"

text \<open>\<open>updateMessageImage\<close>: a rejected read leaves the state as it was and the promise
  rejected.\<close>

definition updateMessageImage ::
  "(blob \<Rightarrow> error + string) \<Rightarrow> string \<Rightarrow> blob \<Rightarrow> state \<Rightarrow> error + state" where
  "updateMessageImage readAsDataURL ident file s =
     (if \<not> startsWith (blob_type file) ''image/'' then Inr s
      else case find (\<lambda>msg. m_id msg = ident) (messages s) of
        None \<Rightarrow> Inr s
      | Some _ \<Rightarrow>
          (case blobToDataUrl readAsDataURL file of
             Inl e \<Rightarrow> Inl e
           | Inr dataUrl \<Rightarrow>
               Inr (saveMessages (renderMessages (s\<lparr>messages :=
                 update_first (\<lambda>msg. m_id msg = ident)
                   (\<lambda>msg. msg\<lparr>m_image :=
                      Some \<lparr>img_blob = file, img_mimeType = blob_type file, img_dataUrl = dataUrl\<rparr>\<rparr>)
                   (messages s)\<rparr>)))))"

section \<open>Output management\<close>

definition addOutput :: "bool \<Rightarrow> state \<Rightarrow> string \<times> state" where
  "addOutput showImage s =
     (let ident = String_of (nextOutputId s);
          s1 = s\<lparr>nextOutputId := nextOutputId s + 1\<rparr>;
          out = \<lparr>o_id = ident,
                    o_imageUrl = (if showImage then Some PLACEHOLDER_IMAGE else None),
                    o_text = ''Generating...'', o_loading = True\<rparr>;
          s2 = s1\<lparr>outputs := out # outputs s1\<rparr>
      in (ident, renderOutputs s2))"

definition updateOutput :: "string \<Rightarrow> string option \<Rightarrow> string \<Rightarrow> state \<Rightarrow> state" where
  "updateOutput ident imageUrl text s =
     (case find (\<lambda>out. o_id out = ident) (outputs s) of
        None \<Rightarrow> s
      | Some _ \<Rightarrow>
          saveOutputs (renderOutputs (s\<lparr>outputs :=
            update_first (\<lambda>out. o_id out = ident)
              (\<lambda>out. out\<lparr>o_imageUrl := imageUrl, o_text := text, o_loading := False\<rparr>)
              (outputs s)\<rparr>)))"

definition deleteOutput :: "string \<Rightarrow> state \<Rightarrow> state" where
  "deleteOutput ident s =
     saveOutputs (renderOutputs (s\<lparr>outputs := filter (\<lambda>out. o_id out \<noteq> ident) (outputs s)\<rparr>))"

definition deleteAllOutputs :: "state \<Rightarrow> state" where
  "deleteAllOutputs s = saveOutputs (renderOutputs (s\<lparr>outputs := []\<rparr>))"

section \<open>Drag and drop for reordering\<close>

definition handleDragStart :: "string \<Rightarrow> state \<Rightarrow> state" where
  "handleDragStart ident s = s\<lparr>draggedId := Some ident\<rparr>"

definition handleDragEnd :: "state \<Rightarrow> state" where
  "handleDragEnd s = s\<lparr>draggedId := None\<rparr>"

text \<open>\<open>handleDrop\<close>; \<open>isTop\<close> is \<open>e.clientY < midpoint\<close>, whether the pointer is in
  the upper half of the target element.  \<open>splice\<close> at a found index always removes an
  element, so the first case of the destructuring does not arise.\<close>

definition handleDrop :: "bool \<Rightarrow> string \<Rightarrow> state \<Rightarrow> state" where
  "handleDrop isTop targetId s =
     (if draggedId s = Some targetId then s
      else
        let draggedIndex = (case draggedId s of None \<Rightarrow> - 1
                            | Some d \<Rightarrow> findIndex (\<lambda>msg. m_id msg = d) (messages s));
            targetIndex = findIndex (\<lambda>msg. m_id msg = targetId) (messages s)
        in if draggedIndex = - 1 \<or> targetIndex = - 1 then s
           else
             (case splice_arr draggedIndex 1 [] (messages s) of
                ([], _) \<Rightarrow> s
              | (draggedMessage # _, ms) \<Rightarrow>
                  let insertIndex =
                        (if draggedIndex < targetIndex
                         then (if isTop then targetIndex - 1 else targetIndex)
                         else (if isTop then targetIndex else targetIndex + 1))
                  in saveMessages (renderMessages
                       (s\<lparr>messages := snd (splice_arr insertIndex 0 [draggedMessage] ms)\<rparr>))))"

text \<open>The operation \<open>reorder(draggedId, targetId, insertBefore)\<close>: one complete drag
  gesture, from \<open>dragstart\<close> on the dragged item over \<open>drop\<close> on the target to
  \<open>dragend\<close>.\<close>

definition reorder :: "string \<Rightarrow> string \<Rightarrow> bool \<Rightarrow> state \<Rightarrow> state" where
  "reorder dragged target insertBefore s =
     handleDragEnd (handleDrop insertBefore target (handleDragStart dragged s))"

text \<open>Sequences of list operations.\<close>

datatype list_op = Add | Delete string | Reorder string string bool

fun apply_op :: "list_op \<Rightarrow> state \<Rightarrow> state" where
  "apply_op Add s = addItem s"
| "apply_op (Delete ident) s = deleteMessage ident s"
| "apply_op (Reorder dragged target insertBefore) s = reorder dragged target insertBefore s"

fun exec :: "list_op list \<Rightarrow> state \<Rightarrow> state" where
  "exec [] s = s"
| "exec (a # ops) s = exec ops (apply_op a s)"

section \<open>Building the parts of a request\<close>

text \<open>The loop over \<open>this.messages\<close> in \<open>generateImageContent\<close>; \<open>parts\<close> is the array
  built so far.  A rejected \<open>blobToBase64\<close> ends the loop with the error.\<close>

fun imageModeParts ::
  "(blob \<Rightarrow> error + string) \<Rightarrow> message list \<Rightarrow> part list \<Rightarrow> error + part list" where
  "imageModeParts rd [] parts = Inr parts"
| "imageModeParts rd (msg # rest) parts =
     (if m_image msg = None \<and> trim (m_text msg) = [] then imageModeParts rd rest parts
      else
        (case m_image msg of
           Some img \<Rightarrow>
             (let textContent = trim (m_text msg);
                  textWithPrompt =
                    (if textContent \<noteq> [] then textContent @ CHR 0x0A # ''See image:''
                     else ''See image:'')
              in case blobToBase64 rd (img_blob img) of
                   Inl e \<Rightarrow> Inl e
                 | Inr base64Data \<Rightarrow>
                     imageModeParts rd rest
                       (parts @ [Text textWithPrompt, InlineData base64Data (img_mimeType img)]))
         | None \<Rightarrow>
             (if trim (m_text msg) \<noteq> []
              then imageModeParts rd rest (parts @ [Text (trim (m_text msg))])
              else imageModeParts rd rest parts)))"

text \<open>The loop over \<open>this.messages\<close> in \<open>generateTextContent\<close>.\<close>

fun textModeParts ::
  "(blob \<Rightarrow> error + string) \<Rightarrow> message list \<Rightarrow> part list \<Rightarrow> error + part list" where
  "textModeParts rd [] parts = Inr parts"
| "textModeParts rd (msg # rest) parts =
     (if m_image msg = None \<and> trim (m_text msg) = [] then textModeParts rd rest parts
      else
        (case m_image msg of
           Some img \<Rightarrow>
             (let textContent = trim (m_text msg);
                  textWithPrompt =
                    (if textContent \<noteq> [] then textContent @ '' See image:''
                     else ''See image:'')
              in case blobToBase64 rd (img_blob img) of
                   Inl e \<Rightarrow> Inl e
                 | Inr base64Data \<Rightarrow>
                     textModeParts rd rest
                       (parts @ [Text textWithPrompt, InlineData base64Data (img_mimeType img)]))
         | None \<Rightarrow>
             (if trim (m_text msg) \<noteq> []
              then textModeParts rd rest (parts @ [Text (trim (m_text msg))])
              else textModeParts rd rest parts)))"

section \<open>Consuming the streamed response\<close>

text \<open>A template literal prints \<open>undefined\<close> for a missing value.\<close>

definition interpolate :: "string option \<Rightarrow> string" where
  "interpolate v = (case v of None \<Rightarrow> ''undefined'' | Some x \<Rightarrow> x)"

text \<open>The two nested loops of \<open>generateImageContent\<close> over the chunks and their parts;
  the accumulator is \<open>(generatedImageUrls, textContent)\<close>.\<close>

fun collectParts :: "resp_part list \<Rightarrow> string list \<times> string \<Rightarrow> string list \<times> string" where
  "collectParts [] acc = acc"
| "collectParts (p # ps) (generatedImageUrls, textContent) =
     (case rp_inlineData p of
        Some (imgMimeType, dat) \<Rightarrow>
          collectParts ps
            (generatedImageUrls @ [''data:'' @ interpolate imgMimeType @ '';base64,'' @ interpolate dat],
             textContent)
      | None \<Rightarrow>
          (case rp_text p of
             Some t \<Rightarrow>
               (if t \<noteq> [] then collectParts ps (generatedImageUrls, textContent @ t)
                else collectParts ps (generatedImageUrls, textContent))
           | None \<Rightarrow> collectParts ps (generatedImageUrls, textContent)))"

fun collectChunks :: "chunk list \<Rightarrow> string list \<times> string \<Rightarrow> string list \<times> string" where
  "collectChunks [] acc = acc"
| "collectChunks (c # cs) acc =
     collectChunks cs (collectParts (case chunk_parts c of None \<Rightarrow> [] | Some ps \<Rightarrow> ps) acc)"

text \<open>The loop of \<open>generateTextContent\<close> over the chunks: every chunk updates the
  output.\<close>

fun consumeText :: "string \<Rightarrow> chunk list \<Rightarrow> string \<Rightarrow> state \<Rightarrow> string \<times> state" where
  "consumeText outputId [] textContent s = (textContent, s)"
| "consumeText outputId (c # cs) textContent s =
     (let chunkText = or_else (chunk_text c) [];
          textContent1 = textContent @ chunkText
      in consumeText outputId cs textContent1 (updateOutput outputId None textContent1 s))"

section \<open>Core logic\<close>

text \<open>
  Every operation is modelled as running to its end: what other event handlers do to the
  state while an operation waits for a read, a fetch or a chunk is not part of the model.
  \<open>generateImageContent\<close> and \<open>generateTextContent\<close> return the error they throw, if
  any, and the state they leave.  \<open>ai\<close> is \<open>ai.models.generateContentStream\<close>: for a
  request it either fails or gives a stream.
\<close>

definition generateImageContent ::
  "(blob \<Rightarrow> error + string) \<Rightarrow> (request \<Rightarrow> error + response_stream) \<Rightarrow>
   string \<Rightarrow> string \<Rightarrow> state \<Rightarrow> error option \<times> state" where
  "generateImageContent rd ai systemMsg outputId s =
     (case imageModeParts rd (messages s)
             (if systemMsg \<noteq> [] then [Text (trim systemMsg)] else []) of
        Inl e \<Rightarrow> (Some e, s)
      | Inr parts \<Rightarrow>
          (let contents = [\<lparr>c_role = ''user'', c_parts = parts\<rparr>];
               config = \<lparr>responseModalities = [''IMAGE''], systemInstruction = None\<rparr>;
               req = \<lparr>r_model = MODEL, r_config = config, r_contents = contents\<rparr>;
               s1 = s\<lparr>requests := requests s @ [req]\<rparr>
           in case ai req of
                Inl e \<Rightarrow> (Some e, s1)
              | Inr response \<Rightarrow>
                  (case collectChunks (rs_chunks response) ([], []) of
                     (generatedImageUrls, textContent) \<Rightarrow>
                       (case rs_error response of
                          Some e \<Rightarrow> (Some e, s1)
                        | None \<Rightarrow>
                            (case generatedImageUrls of
                               finalImageUrl # _ \<Rightarrow>
                                 (None, updateOutput outputId (Some finalImageUrl)
                                    (or_else (Some textContent) ''Image successfully generated.'') s1)
                             | [] \<Rightarrow>
                                 (None, updateOutput outputId (Some PLACEHOLDER_IMAGE)
                                    (or_else (Some textContent)
                                       ''Generation complete, but no image was returned.'') s1))))))"

definition generateTextContent ::
  "(blob \<Rightarrow> error + string) \<Rightarrow> (request \<Rightarrow> error + response_stream) \<Rightarrow>
   string \<Rightarrow> string \<Rightarrow> state \<Rightarrow> error option \<times> state" where
  "generateTextContent rd ai systemMsg outputId s =
     (case textModeParts rd (messages s) [] of
        Inl e \<Rightarrow> (Some e, s)
      | Inr parts \<Rightarrow>
          (let contents = [\<lparr>c_role = ''user'', c_parts = parts\<rparr>];
               config = \<lparr>responseModalities = [''TEXT''],
                         systemInstruction = (if systemMsg \<noteq> [] then Some systemMsg else None)\<rparr>;
               req = \<lparr>r_model = TEXT_MODEL, r_config = config, r_contents = contents\<rparr>;
               s1 = s\<lparr>requests := requests s @ [req]\<rparr>
           in case ai req of
                Inl e \<Rightarrow> (Some e, s1)
              | Inr response \<Rightarrow>
                  (case consumeText outputId (rs_chunks response) [] s1 of
                     (textContent, s2) \<Rightarrow>
                       (case rs_error response of
                          Some e \<Rightarrow> (Some e, s2)
                        | None \<Rightarrow>
                            (None, updateOutput outputId None
                               (or_else (Some textContent)
                                  ''Text generation complete, but no text was returned.'') s2)))))"

text \<open>The two entry operations; they return the error they throw, if any, and the state
  they leave.  \<open>GoogleGenAI apiKey\<close> is the client made for the key.  The \<open>catch\<close> block
  reads \<open>error.message\<close>: for a thrown \<open>null\<close> or \<open>undefined\<close> that read throws, so the
  operation ends there with a \<open>TypeError\<close> and without updating the output.\<close>

definition handleGenerateImage ::
  "(blob \<Rightarrow> error + string) \<Rightarrow> (string \<Rightarrow> request \<Rightarrow> error + response_stream) \<Rightarrow>
   state \<Rightarrow> error option \<times> state" where
  "handleGenerateImage rd GoogleGenAI s =
     (let apiKey = trim (apiKeyInput s);
          systemMsg = trim (systemMessage s)
      in if apiKey = [] then (None, alert ''Please provide an API Key.'' s)
         else if systemMsg = [] \<and> length (messages s) = 0
         then (None,
               alert ''Please provide either a system message or at least one message item.'' s)
         else
           (case addOutput True s of
              (outputId, s1) \<Rightarrow>
                (case generateImageContent rd (GoogleGenAI apiKey) systemMsg outputId s1 of
                   (None, s2) \<Rightarrow> (None, s2)
                 | (Some e, s2) \<Rightarrow>
                     (case e of
                        Nullish \<Rightarrow> (Some TypeError, s2)
                      | Error m \<Rightarrow>
                          (None,
                           updateOutput outputId (Some PLACEHOLDER_IMAGE)
                             (''Error: '' @ or_else m ''An unknown error occurred.'') s2)))))"

definition handleGenerateText ::
  "(blob \<Rightarrow> error + string) \<Rightarrow> (string \<Rightarrow> request \<Rightarrow> error + response_stream) \<Rightarrow>
   state \<Rightarrow> error option \<times> state" where
  "handleGenerateText rd GoogleGenAI s =
     (let apiKey = trim (apiKeyInput s);
          systemMsg = trim (systemMessage s)
      in if apiKey = [] then (None, alert ''Please provide an API Key.'' s)
         else if systemMsg = [] \<and> length (messages s) = 0
         then (None,
               alert ''Please provide either a system message or at least one message item.'' s)
         else
           (case addOutput False s of
              (outputId, s1) \<Rightarrow>
                (case generateTextContent rd (GoogleGenAI apiKey) systemMsg outputId s1 of
                   (None, s2) \<Rightarrow> (None, s2)
                 | (Some e, s2) \<Rightarrow>
                     (case e of
                        Nullish \<Rightarrow> (Some TypeError, s2)
                      | Error m \<Rightarrow>
                          (None,
                           updateOutput outputId None
                             (''Error: '' @ or_else m ''An unknown error occurred.'') s2)))))"

section \<open>Loading a template\<close>

text \<open>The loop of \<open>loadTemplate\<close> over the entries that are not system entries.
  \<open>fetch\<close> stands for \<open>fetch(dataUrl)\<close> followed by \<open>response.blob()\<close>: the blob, or
  the error either of them throws.  The loop returns the error that ended it, if any,
  and the state it left.\<close>

fun addTemplateMessages ::
  "(string \<Rightarrow> error + blob) \<Rightarrow> templateMessage list \<Rightarrow> state \<Rightarrow> error option \<times> state" where
  "addTemplateMessages fetch [] s = (None, s)"
| "addTemplateMessages fetch (msg # rest) s =
     (let ident = String_of (nextId s);
          s1 = s\<lparr>nextId := nextId s + 1\<rparr>
      in case tm_image msg of
           None \<Rightarrow>
             addTemplateMessages fetch rest
               (s1\<lparr>messages := messages s1 @ [\<lparr>m_id = ident, m_text = tm_text msg, m_image = None\<rparr>]\<rparr>)
         | Some dataUrl \<Rightarrow>
             (case fetch dataUrl of
                Inl e \<Rightarrow> (Some e, s1)
              | Inr b \<Rightarrow>
                  addTemplateMessages fetch rest
                    (s1\<lparr>messages := messages s1 @
                       [\<lparr>m_id = ident, m_text = tm_text msg,
                         m_image = Some \<lparr>img_blob = b, img_mimeType = blob_type b,
                                          img_dataUrl = dataUrl\<rparr>\<rparr>]\<rparr>)))"

text \<open>\<open>loadTemplate\<close>.  \<open>asyncTemplates\<close> maps a template name to the outcome of its
  import; for a name it does not hold, reading \<open>.template\<close> of \<open>undefined\<close> throws.\<close>

definition loadTemplate ::
  "(string \<Rightarrow> (error + template) option) \<Rightarrow> (string \<Rightarrow> error + blob) \<Rightarrow>
   string \<Rightarrow> state \<Rightarrow> state" where
  "loadTemplate asyncTemplates fetch templateName s =
     (case (case asyncTemplates templateName of
              None \<Rightarrow> Inl TypeError
            | Some r \<Rightarrow> r) of
        Inl e \<Rightarrow> alert ''Failed to load template.'' s
      | Inr template \<Rightarrow>
          (let s1 = s\<lparr>messages := [], nextId := 1\<rparr>;
               s2 = (case find (\<lambda>m. tm_role m = System) template of
                       None \<Rightarrow> s1
                     | Some systemMsg \<Rightarrow>
                         saveSystemMessage (tm_text systemMsg)
                           (s1\<lparr>systemMessage := tm_text systemMsg\<rparr>))
           in case addTemplateMessages fetch (filter (\<lambda>m. tm_role m \<noteq> System) template) s2 of
                (Some e, s3) \<Rightarrow> alert ''Failed to load template.'' s3
              | (None, s3) \<Rightarrow> saveMessages (renderMessages s3)))"

section \<open>Notions used to state the properties\<close>

text \<open>Reordering as the specification words it: the dragged item is removed and put back
  next to the target, immediately before it or immediately after it.\<close>

fun remove_first :: "('a \<Rightarrow> bool) \<Rightarrow> 'a list \<Rightarrow> 'a list" where
  "remove_first P [] = []"
| "remove_first P (x # xs) = (if P x then xs else x # remove_first P xs)"

fun insert_adjacent :: "bool \<Rightarrow> ('a \<Rightarrow> bool) \<Rightarrow> 'a \<Rightarrow> 'a list \<Rightarrow> 'a list" where
  "insert_adjacent before P x [] = []"
| "insert_adjacent before P x (y # ys) =
     (if P y then (if before then x # y # ys else y # x # ys)
      else y # insert_adjacent before P x ys)"

definition reorder_spec :: "string \<Rightarrow> string \<Rightarrow> bool \<Rightarrow> message list \<Rightarrow> message list" where
  "reorder_spec dragged target insertBefore xs =
     (case find (\<lambda>m. m_id m = dragged) xs of
        None \<Rightarrow> xs
      | Some x \<Rightarrow>
          insert_adjacent insertBefore (\<lambda>m. m_id m = target) x
            (remove_first (\<lambda>m. m_id m = dragged) xs))"

text \<open>The ids of the message list are pairwise distinct and were all issued by the
  counter, which has moved past them.\<close>

definition ids_ok :: "state \<Rightarrow> bool" where
  "ids_ok s =
     (distinct (map m_id (messages s)) \<and>
      (\<forall>m \<in> set (messages s). m_id m \<in> String_of ` {..<nextId s}))"

text \<open>The output lists drawn between a state and a later one, the \<open>loading\<close> flag of the
  output with a given id in an output list, and the number of steps of a sequence of
  flags at which \<open>loading\<close> goes from true to false.\<close>

definition new_renders :: "state \<Rightarrow> state \<Rightarrow> output_item list list" where
  "new_renders s s' = drop (length (rendered_outputs s)) (rendered_outputs s')"

definition loading_of :: "string \<Rightarrow> output_item list \<Rightarrow> bool option" where
  "loading_of ident outs = map_option o_loading (find (\<lambda>out. o_id out = ident) outs)"

fun clearings :: "bool option list \<Rightarrow> nat" where
  "clearings (a # b # xs) =
     (if a = Some True \<and> b = Some False then 1 else 0) + clearings (b # xs)"
| "clearings xs = 0"

text \<open>What a stream of the image flow produced: all the parts of its chunks in order,
  the data URLs of the parts that carry inline data, and the concatenated text of the
  other parts.\<close>

definition stream_parts :: "chunk list \<Rightarrow> resp_part list" where
  "stream_parts cs = concat (map (\<lambda>c. case chunk_parts c of None \<Rightarrow> [] | Some ps \<Rightarrow> ps) cs)"

definition image_url :: "resp_part \<Rightarrow> string" where
  "image_url p =
     (case rp_inlineData p of
        None \<Rightarrow> []
      | Some (mt, d) \<Rightarrow> ''data:'' @ interpolate mt @ '';base64,'' @ interpolate d)"

definition produced_images :: "chunk list \<Rightarrow> string list" where
  "produced_images cs = map image_url (filter (\<lambda>p. rp_inlineData p \<noteq> None) (stream_parts cs))"

definition accumulated_text :: "chunk list \<Rightarrow> string" where
  "accumulated_text cs =
     concat (map (\<lambda>p. or_else (rp_text p) []) (filter (\<lambda>p. rp_inlineData p = None) (stream_parts cs)))"

text \<open>What a stream of the text flow produced: the text delta of every chunk, and the
  running string after each chunk.\<close>

definition deltas :: "chunk list \<Rightarrow> string list" where
  "deltas cs = map (\<lambda>c. or_else (chunk_text c) []) cs"

definition running :: "chunk list \<Rightarrow> string list" where
  "running cs = map (\<lambda>k. concat (take k (deltas cs))) [1..<Suc (length cs)]"

text \<open>The output \<open>addOutput\<close> creates in a state, and an output after an update
  with an image reference and a text.\<close>

definition created :: "bool \<Rightarrow> state \<Rightarrow> output_item" where
  "created showImage s =
     \<lparr>o_id = String_of (nextOutputId s),
      o_imageUrl = (if showImage then Some PLACEHOLDER_IMAGE else None),
      o_text = ''Generating...'', o_loading = True\<rparr>"

definition finalized :: "string option \<Rightarrow> string \<Rightarrow> output_item \<Rightarrow> output_item" where
  "finalized imageUrl txt out = out\<lparr>o_imageUrl := imageUrl, o_text := txt, o_loading := False\<rparr>"

text \<open>The output lists a flow draws when it creates its output in a state and then updates
  it with the given image references and texts, one list per step; and a later state
  reached by such a flow: these lists were drawn since, and the last of them is the
  output list.\<close>

definition renders_of :: "bool \<Rightarrow> state \<Rightarrow> (string option \<times> string) list \<Rightarrow> output_item list list" where
  "renders_of showImage s updates =
     (created showImage s # outputs s) #
     map (\<lambda>x. finalized (fst x) (snd x) (created showImage s) # outputs s) updates"

definition drawn :: "bool \<Rightarrow> state \<Rightarrow> state \<Rightarrow> (string option \<times> string) list \<Rightarrow> bool" where
  "drawn showImage s s' updates =
     (rendered_outputs s' = rendered_outputs s @ renders_of showImage s updates \<and>
      outputs s' = last (renders_of showImage s updates))"

text \<open>The requests of the two flows for a system instruction and the parts of the message
  items, and the text an output gets for the \<open>.message\<close> of a thrown value.\<close>

definition image_request :: "string \<Rightarrow> part list \<Rightarrow> request" where
  "image_request systemMsg ps =
     \<lparr>r_model = MODEL,
      r_config = \<lparr>responseModalities = [''IMAGE''], systemInstruction = None\<rparr>,
      r_contents = [\<lparr>c_role = ''user'',
                     c_parts = (if systemMsg \<noteq> [] then [Text (trim systemMsg)] else []) @ ps\<rparr>]\<rparr>"

definition text_request :: "string \<Rightarrow> part list \<Rightarrow> request" where
  "text_request systemMsg ps =
     \<lparr>r_model = TEXT_MODEL,
      r_config = \<lparr>responseModalities = [''TEXT''],
                  systemInstruction = (if systemMsg \<noteq> [] then Some systemMsg else None)\<rparr>,
      r_contents = [\<lparr>c_role = ''user'', c_parts = ps\<rparr>]\<rparr>"

definition error_text :: "string option \<Rightarrow> string" where
  "error_text m = ''Error: '' @ or_else m ''An unknown error occurred.''"

text \<open>What the \<open>catch\<close> block of an entry operation makes of a thrown value: the text it
  gives the output (none for \<open>null\<close> and \<open>undefined\<close>), and the error the operation
  itself then ends with.\<close>

definition caught :: "error \<Rightarrow> string list" where
  "caught e = (case e of Nullish \<Rightarrow> [] | Error m \<Rightarrow> [error_text m])"

definition rejection :: "error \<Rightarrow> error option" where
  "rejection e = (case e of Nullish \<Rightarrow> Some TypeError | Error m \<Rightarrow> None)"

text \<open>The precondition of the entry operations: the credential (the trimmed value of the
  key input) is not empty, and the system text (the trimmed value of the system input) is
  not empty or the message list is not empty.\<close>

definition valid_request :: "state \<Rightarrow> bool" where
  "valid_request s =
     (trim (apiKeyInput s) \<noteq> [] \<and> (trim (systemMessage s) \<noteq> [] \<or> messages s \<noteq> []))"

text \<open>The message item a template entry becomes, and whether the image of an entry, if
  it has one, can be fetched.\<close>

definition loaded :: "(string \<Rightarrow> error + blob) \<Rightarrow> string \<Rightarrow> templateMessage \<Rightarrow> message" where
  "loaded fetch ident msg =
     \<lparr>m_id = ident, m_text = tm_text msg,
      m_image = (case tm_image msg of
                   None \<Rightarrow> None
                 | Some dataUrl \<Rightarrow>
                     (case fetch dataUrl of
                        Inl e \<Rightarrow> None
                      | Inr b \<Rightarrow> Some \<lparr>img_blob = b, img_mimeType = blob_type b, img_dataUrl = dataUrl\<rparr>))\<rparr>"

definition fetchable :: "(string \<Rightarrow> error + blob) \<Rightarrow> templateMessage \<Rightarrow> bool" where
  "fetchable fetch msg =
     (case tm_image msg of
        None \<Rightarrow> True
      | Some dataUrl \<Rightarrow> (case fetch dataUrl of Inl e \<Rightarrow> False | Inr b \<Rightarrow> True))"

section \<open>Sample values\<close>

text \<open>A message item with a given id, no text and no image.\<close>

definition item :: "string \<Rightarrow> message" where
  "item i = \<lparr>m_id = i, m_text = [], m_image = None\<rparr>"

text \<open>A PNG file, a file reader that reads every blob and one that reads none, and the
  message item with the text \<open>hi\<close> and the file as its image.\<close>

definition png :: blob where
  "png = \<lparr>blob_bytes = ''ABC'', blob_type = ''image/png''\<rparr>"

definition reader :: "blob \<Rightarrow> error + string" where
  "reader b = Inr (''data:'' @ blob_type b @ '';base64,QUJD'')"

definition unreadable :: "blob \<Rightarrow> error + string" where
  "unreadable b = Inl (Error None)"

definition hi_image :: image where
  "hi_image =
     \<lparr>img_blob = png, img_mimeType = ''image/png'', img_dataUrl = ''data:image/png;base64,QUJD''\<rparr>"

definition hi :: message where
  "hi = \<lparr>m_id = ''1'', m_text = ''hi'', m_image = Some hi_image\<rparr>"

text \<open>A state with a credential and that one message item; and a state with a credential
  and a system text only.\<close>

definition keyed :: state where
  "keyed = init\<lparr>apiKeyInput := ''key'', messages := [hi]\<rparr>"

definition briefed :: state where
  "briefed = init\<lparr>apiKeyInput := ''key'', systemMessage := '' be brief ''\<rparr>"

text \<open>API clients: one whose stream ends at once, one that streams the two text chunks
  \<open>He\<close> and \<open>llo\<close>, and one that streams a text part and an image.\<close>

definition no_chunks :: "string \<Rightarrow> request \<Rightarrow> error + response_stream" where
  "no_chunks apiKey req = Inr \<lparr>rs_chunks = [], rs_error = None\<rparr>"

definition two_chunks :: "string \<Rightarrow> request \<Rightarrow> error + response_stream" where
  "two_chunks apiKey req =
     Inr \<lparr>rs_chunks = [\<lparr>chunk_parts = None, chunk_text = Some ''He''\<rparr>,
                       \<lparr>chunk_parts = None, chunk_text = Some ''llo''\<rparr>],
          rs_error = None\<rparr>"

definition one_image :: "string \<Rightarrow> request \<Rightarrow> error + response_stream" where
  "one_image apiKey req =
     Inr \<lparr>rs_chunks =
            [\<lparr>chunk_parts = Some [\<lparr>rp_inlineData = None, rp_text = Some ''a cat''\<rparr>,
                                  \<lparr>rp_inlineData = Some (Some ''image/png'', Some ''QUJD''),
                                   rp_text = None\<rparr>],
              chunk_text = Some ''a cat''\<rparr>],
          rs_error = None\<rparr>"

text \<open>API clients that fail: one whose request is rejected with \<open>undefined\<close>, one whose
  stream yields the chunk \<open>He\<close> and then throws an error with the message \<open>boom\<close>, and
  one whose stream yields the chunk \<open>He\<close> and then throws \<open>undefined\<close>.\<close>

definition rejecting_undefined :: "string \<Rightarrow> request \<Rightarrow> error + response_stream" where
  "rejecting_undefined apiKey req = Inl Nullish"

definition failing_after_He :: "string \<Rightarrow> request \<Rightarrow> error + response_stream" where
  "failing_after_He apiKey req =
     Inr \<lparr>rs_chunks = [\<lparr>chunk_parts = None, chunk_text = Some ''He''\<rparr>],
          rs_error = Some (Error (Some ''boom''))\<rparr>"

definition undefined_after_He :: "string \<Rightarrow> request \<Rightarrow> error + response_stream" where
  "undefined_after_He apiKey req =
     Inr \<lparr>rs_chunks = [\<lparr>chunk_parts = None, chunk_text = Some ''He''\<rparr>],
          rs_error = Some Nullish\<rparr>"

text \<open>A template with a system entry and two other entries, the second with an image;
  and a \<open>fetch\<close> that always fails.\<close>

definition two_entries :: template where
  "two_entries =
     [\<lparr>tm_role = System, tm_text = ''sys'', tm_image = None\<rparr>,
      \<lparr>tm_role = User, tm_text = ''first'', tm_image = None\<rparr>,
      \<lparr>tm_role = User, tm_text = ''second'', tm_image = Some ''data:,x''\<rparr>]"

definition failing_fetch :: "string \<Rightarrow> error + blob" where
  "failing_fetch url = Inl (Error (Some ''Failed to fetch''))"

section \<open>Frame properties of the id-addressed updates\<close>

lemma find_absent: "x \<notin> f ` set xs \<Longrightarrow> find (\<lambda>y. f y = x) xs = None"
  by (induction xs) auto

text \<open>
  Claim C10.  An update addressed to an id that no element carries changes nothing:
  \<open>updateOutput\<close> with an id absent from the output list returns the state it was given
  (so no other output is altered), and \<open>updateMessageText\<close> and \<open>updateMessageImage\<close>
  with an id absent from the message list return the state they were given, whatever the
  text, the file and the behaviour of the file reader.
\<close>

theorem absent_id_updates_are_noops:
  "(ident \<notin> o_id ` set (outputs s) \<longrightarrow> updateOutput ident imageUrl txt s = s) \<and>
   (ident \<notin> m_id ` set (messages s) \<longrightarrow>
      updateMessageText ident txt s = s \<and>
      updateMessageImage readAsDataURL ident f s = Inr s)"
  by (simp add: updateOutput_def updateMessageText_def updateMessageImage_def find_absent)

theorem absent_id_updates_are_noops_witness:
  "''7'' \<notin> o_id ` set (outputs (snd (addOutput True (addItem init)))) \<and>
   ''7'' \<notin> m_id ` set (messages (snd (addOutput True (addItem init)))) \<and>
   updateOutput ''7'' None ''late'' (snd (addOutput True (addItem init))) =
     snd (addOutput True (addItem init)) \<and>
   updateMessageText ''7'' ''late'' (snd (addOutput True (addItem init))) =
     snd (addOutput True (addItem init)) \<and>
   updateMessageImage (\<lambda>b. Inr ''data:image/png;base64,AA'') ''7''
     \<lparr>blob_bytes = ''b'', blob_type = ''image/png''\<rparr> (snd (addOutput True (addItem init))) =
     Inr (snd (addOutput True (addItem init)))"
proof -
  have o: "''7'' \<notin> o_id ` set (outputs (snd (addOutput True (addItem init))))"
    by (simp add: addOutput_def addItem_def init_def renderOutputs_def renderMessages_def
        saveMessages_def Let_def String_of.simps digit_char_def)
  have m: "''7'' \<notin> m_id ` set (messages (snd (addOutput True (addItem init))))"
    by (simp add: addOutput_def addItem_def init_def renderOutputs_def renderMessages_def
        saveMessages_def Let_def String_of.simps digit_char_def)
  from o m absent_id_updates_are_noops
    [of "''7''" "snd (addOutput True (addItem init))" None "''late''"
        "\<lambda>b. Inr ''data:image/png;base64,AA''" "\<lparr>blob_bytes = ''b'', blob_type = ''image/png''\<rparr>"]
  show ?thesis by simp
qed

section \<open>Reordering\<close>

text \<open>Indices of first occurrences, and the specification functions on a list split at
  a first occurrence.\<close>

lemma findIndex_ge: "- 1 \<le> findIndex P xs"
  by (induction xs) (auto simp: Let_def)

lemma findIndex_none: "\<forall>a\<in>set A. \<not> P a \<Longrightarrow> findIndex P A = - 1"
  by (induction A) auto

lemma findIndex_first: "\<forall>a\<in>set A. \<not> P a \<Longrightarrow> P x \<Longrightarrow> findIndex P (A @ x # B) = int (length A)"
  by (induction A) (auto simp: Let_def)

lemma find_first: "\<forall>a\<in>set A. \<not> P a \<Longrightarrow> P x \<Longrightarrow> find P (A @ x # B) = Some x"
  by (induction A) auto

lemma remove_first_first: "\<forall>a\<in>set A. \<not> P a \<Longrightarrow> P x \<Longrightarrow> remove_first P (A @ x # B) = A @ B"
  by (induction A) auto

lemma insert_adjacent_first:
  "\<forall>a\<in>set A. \<not> P a \<Longrightarrow> P y \<Longrightarrow>
   insert_adjacent b P x (A @ y # B) = A @ (if b then [x, y] else [y, x]) @ B"
  by (induction A) auto

text \<open>The dragged item precedes the target.\<close>

lemma handleDrop_down:
  assumes A: "\<forall>a\<in>set A. m_id a \<noteq> d \<and> m_id a \<noteq> t"
    and x: "m_id x = d" and B: "\<forall>b\<in>set B. m_id b \<noteq> t" and y: "m_id y = t" and dt: "d \<noteq> t"
    and ms: "messages s = A @ x # B @ y # C" and dr: "draggedId s = Some d"
  shows "messages (handleDrop isTop t s) = A @ B @ (if isTop then [x, y] else [y, x]) @ C"
proof -
  have i: "findIndex (\<lambda>msg. m_id msg = d) (A @ x # B @ y # C) = int (length A)"
    using A x by (intro findIndex_first) auto
  have "findIndex (\<lambda>msg. m_id msg = t) ((A @ x # B) @ y # C) = int (length (A @ x # B))"
    using A B x y dt by (intro findIndex_first) auto
  then have j: "findIndex (\<lambda>msg. m_id msg = t) (A @ x # B @ y # C) = int (length A) + 1 + int (length B)"
    by simp
  show ?thesis
    using dt by (simp add: handleDrop_def dr ms i j splice_arr_def Let_def renderMessages_def saveMessages_def nat_add_distrib)
qed

text \<open>The dragged item follows the target.\<close>

lemma handleDrop_up:
  assumes A: "\<forall>a\<in>set A. m_id a \<noteq> d \<and> m_id a \<noteq> t"
    and x: "m_id x = d" and B: "\<forall>b\<in>set B. m_id b \<noteq> d" and y: "m_id y = t" and dt: "d \<noteq> t"
    and ms: "messages s = A @ y # B @ x # C" and dr: "draggedId s = Some d"
  shows "messages (handleDrop isTop t s) = A @ (if isTop then [x, y] else [y, x]) @ B @ C"
proof -
  have "findIndex (\<lambda>msg. m_id msg = d) ((A @ y # B) @ x # C) = int (length (A @ y # B))"
    using A B x y dt by (intro findIndex_first) auto
  then have i: "findIndex (\<lambda>msg. m_id msg = d) (A @ y # B @ x # C) = int (length A) + 1 + int (length B)"
    by simp
  have j: "findIndex (\<lambda>msg. m_id msg = t) (A @ y # B @ x # C) = int (length A)"
    using A y by (intro findIndex_first) auto
  show ?thesis
    using dt by (simp add: handleDrop_def dr ms i j splice_arr_def Let_def renderMessages_def saveMessages_def nat_add_distrib)
qed


text \<open>Two distinct ids of a list occur first in one order or the other.\<close>

lemma reorder_decompose:
  assumes dt: "d \<noteq> t" and d: "d \<in> m_id ` set xs" and t: "t \<in> m_id ` set xs"
  obtains (down) A x B y C where "xs = A @ x # B @ y # C"
      "\<forall>a\<in>set A. m_id a \<noteq> d \<and> m_id a \<noteq> t" "m_id x = d" "\<forall>b\<in>set B. m_id b \<noteq> t" "m_id y = t"
  | (up) A x B y C where "xs = A @ y # B @ x # C"
      "\<forall>a\<in>set A. m_id a \<noteq> d \<and> m_id a \<noteq> t" "m_id x = d" "\<forall>b\<in>set B. m_id b \<noteq> d" "m_id y = t"
proof -
  from d have "\<exists>m\<in>set xs. m_id m = d" by auto
  from split_list_first_prop[OF this]
  obtain A x R where xs: "xs = A @ x # R" and x: "m_id x = d" and A: "\<forall>a\<in>set A. m_id a \<noteq> d"
    by blast
  show thesis
  proof (cases "\<exists>m\<in>set A. m_id m = t")
    case True
    from split_list_first_prop[OF this]
    obtain A1 y A2 where A12: "A = A1 @ y # A2" and y: "m_id y = t"
      and A1: "\<forall>a\<in>set A1. m_id a \<noteq> t"
      by blast
    show thesis
    proof (rule up)
      show "xs = A1 @ y # A2 @ x # R" using xs A12 by simp
      show "\<forall>a\<in>set A1. m_id a \<noteq> d \<and> m_id a \<noteq> t" using A A1 A12 by auto
      show "m_id x = d" by (rule x)
      show "\<forall>b\<in>set A2. m_id b \<noteq> d" using A A12 by auto
      show "m_id y = t" by (rule y)
    qed
  next
    case False
    with t xs x dt have "\<exists>m\<in>set R. m_id m = t" by auto
    from split_list_first_prop[OF this]
    obtain B y C where R: "R = B @ y # C" and y: "m_id y = t" and B: "\<forall>b\<in>set B. m_id b \<noteq> t"
      by blast
    show thesis
    proof (rule down)
      show "xs = A @ x # B @ y # C" using xs R by simp
      show "\<forall>a\<in>set A. m_id a \<noteq> d \<and> m_id a \<noteq> t" using A False by auto
      show "m_id x = d" by (rule x)
      show "\<forall>b\<in>set B. m_id b \<noteq> t" by (rule B)
      show "m_id y = t" by (rule y)
    qed
  qed
qed

lemma reorder_handleDrop: "messages (reorder d t b s) = messages (handleDrop b t (s\<lparr>draggedId := Some d\<rparr>))"
  by (simp add: reorder_def handleDragEnd_def handleDragStart_def)

lemma reorder_general:
  assumes dt: "d \<noteq> t" and d: "d \<in> m_id ` set (messages s)" and t: "t \<in> m_id ` set (messages s)"
  shows "messages (reorder d t b s) = reorder_spec d t b (messages s) \<and>
    (\<exists>x. find (\<lambda>m. m_id m = d) (messages s) = Some x \<and>
      (let rest = remove_first (\<lambda>m. m_id m = d) (messages s);
           k = nat (findIndex (\<lambda>m. m_id m = t) rest) + (if b then 0 else 1)
       in messages (reorder d t b s) = take k rest @ x # drop k rest \<and>
          findIndex (\<lambda>m. m_id m = t) rest =
            findIndex (\<lambda>m. m_id m = t) (messages s) -
              (if findIndex (\<lambda>m. m_id m = d) (messages s) < findIndex (\<lambda>m. m_id m = t) (messages s)
               then 1 else 0)))"
  using dt d t
proof (cases rule: reorder_decompose)
  case (down A x B y C)
  let ?s = "s\<lparr>draggedId := Some d\<rparr>"
  have m: "messages (reorder d t b s) = A @ B @ (if b then [x, y] else [y, x]) @ C"
    unfolding reorder_handleDrop
    by (rule handleDrop_down[OF down(2,3,4,5) dt]) (simp_all add: down(1))
  have f: "find (\<lambda>m. m_id m = d) (messages s) = Some x"
    unfolding down(1) using down by (intro find_first) auto
  have r: "remove_first (\<lambda>m. m_id m = d) (messages s) = A @ B @ y # C"
    unfolding down(1) using down by (subst remove_first_first) auto
  have "insert_adjacent b (\<lambda>m. m_id m = t) x ((A @ B) @ y # C) = (A @ B) @ (if b then [x, y] else [y, x]) @ C"
    using down by (intro insert_adjacent_first) auto
  then have ia: "insert_adjacent b (\<lambda>m. m_id m = t) x (A @ B @ y # C) = A @ B @ (if b then [x, y] else [y, x]) @ C"
    by simp
  have "findIndex (\<lambda>m. m_id m = t) ((A @ B) @ y # C) = int (length (A @ B))"
    using down by (intro findIndex_first) auto
  then have k: "findIndex (\<lambda>m. m_id m = t) (A @ B @ y # C) = int (length A) + int (length B)" by simp
  have i: "findIndex (\<lambda>msg. m_id msg = d) (A @ x # B @ y # C) = int (length A)"
    using down by (intro findIndex_first) auto
  have "findIndex (\<lambda>msg. m_id msg = t) ((A @ x # B) @ y # C) = int (length (A @ x # B))"
    using down dt by (intro findIndex_first) auto
  then have j: "findIndex (\<lambda>msg. m_id msg = t) (A @ x # B @ y # C) = int (length A) + 1 + int (length B)"
    by simp
  show ?thesis
    unfolding m reorder_spec_def f r Let_def k
    by (simp add: ia down(1) i j nat_add_distrib)
next
  case (up A x B y C)
  have m: "messages (reorder d t b s) = A @ (if b then [x, y] else [y, x]) @ B @ C"
    unfolding reorder_handleDrop
    by (rule handleDrop_up[OF up(2,3,4,5) dt]) (simp_all add: up(1))
  have "find (\<lambda>m. m_id m = d) ((A @ y # B) @ x # C) = Some x"
    using up dt by (intro find_first) auto
  then have f: "find (\<lambda>m. m_id m = d) (messages s) = Some x"
    unfolding up(1) by simp
  have "remove_first (\<lambda>m. m_id m = d) ((A @ y # B) @ x # C) = (A @ y # B) @ C"
    using up dt by (intro remove_first_first) auto
  then have r: "remove_first (\<lambda>m. m_id m = d) (messages s) = A @ y # B @ C"
    unfolding up(1) by simp
  have ia: "insert_adjacent b (\<lambda>m. m_id m = t) x (A @ y # B @ C) = A @ (if b then [x, y] else [y, x]) @ B @ C"
    using up by (intro insert_adjacent_first) auto
  have k: "findIndex (\<lambda>m. m_id m = t) (A @ y # B @ C) = int (length A)"
    using up by (intro findIndex_first) auto
  have "findIndex (\<lambda>msg. m_id msg = d) ((A @ y # B) @ x # C) = int (length (A @ y # B))"
    using up dt by (intro findIndex_first) auto
  then have i: "findIndex (\<lambda>msg. m_id msg = d) (A @ y # B @ x # C) = int (length A) + 1 + int (length B)"
    by simp
  have j: "findIndex (\<lambda>msg. m_id msg = t) (A @ y # B @ x # C) = int (length A)"
    using up by (intro findIndex_first) auto
  show ?thesis
    unfolding m reorder_spec_def f r Let_def k
    by (simp add: ia up(1) i j)
qed

lemma reorder_example_down:
  "messages (reorder ''A'' ''C'' False
     (init\<lparr>messages := [item ''A'', item ''B'', item ''C'', item ''D'']\<rparr>)) =
   [item ''B'', item ''C'', item ''A'', item ''D'']"
  by (simp add: reorder_def handleDragEnd_def handleDragStart_def handleDrop_def splice_arr_def
      Let_def renderMessages_def saveMessages_def init_def item_def)

lemma reorder_example_up:
  "messages (reorder ''D'' ''B'' True
     (init\<lparr>messages := [item ''A'', item ''B'', item ''C'', item ''D'']\<rparr>)) =
   [item ''A'', item ''D'', item ''B'', item ''C'']"
  by (simp add: reorder_def handleDragEnd_def handleDragStart_def handleDrop_def splice_arr_def
      Let_def renderMessages_def saveMessages_def init_def item_def)

text \<open>
  Claim C2.  For every message list and every two distinct ids present in it,
  \<open>reorder\<close> yields the list in which the dragged item has been removed and put back
  next to the target, immediately before it when inserting before and immediately after
  it otherwise (\<open>reorder_spec\<close>).  The insertion index is the position of the target in
  the list after the removal (plus one when inserting after), and that position is one
  less than the target's original index exactly when the dragged item preceded the
  target.  On \<open>[A, B, C, D]\<close>, dragging \<open>A\<close> to after \<open>C\<close> gives \<open>[B, C, A, D]\<close> and
  dragging \<open>D\<close> to before \<open>B\<close> gives \<open>[A, D, B, C]\<close>.
\<close>

theorem reorder_adjacent_to_target:
  "(dragged \<noteq> target \<and> dragged \<in> m_id ` set (messages s) \<and> target \<in> m_id ` set (messages s) \<longrightarrow>
      messages (reorder dragged target insertBefore s) =
        reorder_spec dragged target insertBefore (messages s) \<and>
      (\<exists>x. find (\<lambda>m. m_id m = dragged) (messages s) = Some x \<and>
        (let rest = remove_first (\<lambda>m. m_id m = dragged) (messages s);
             k = nat (findIndex (\<lambda>m. m_id m = target) rest) + (if insertBefore then 0 else 1)
         in messages (reorder dragged target insertBefore s) = take k rest @ x # drop k rest \<and>
            findIndex (\<lambda>m. m_id m = target) rest =
              findIndex (\<lambda>m. m_id m = target) (messages s) -
                (if findIndex (\<lambda>m. m_id m = dragged) (messages s) <
                    findIndex (\<lambda>m. m_id m = target) (messages s)
                 then 1 else 0)))) \<and>
   messages (reorder ''A'' ''C'' False
     (init\<lparr>messages := [item ''A'', item ''B'', item ''C'', item ''D'']\<rparr>)) =
     [item ''B'', item ''C'', item ''A'', item ''D''] \<and>
   messages (reorder ''D'' ''B'' True
     (init\<lparr>messages := [item ''A'', item ''B'', item ''C'', item ''D'']\<rparr>)) =
     [item ''A'', item ''D'', item ''B'', item ''C'']"
  using reorder_general [of dragged target s insertBefore] reorder_example_down reorder_example_up
  by blast

theorem reorder_adjacent_to_target_witness:
  "''2'' \<noteq> ''3'' \<and>
   ''2'' \<in> m_id ` set (messages (init\<lparr>messages := [item ''1'', item ''2'', item ''3'']\<rparr>)) \<and>
   ''3'' \<in> m_id ` set (messages (init\<lparr>messages := [item ''1'', item ''2'', item ''3'']\<rparr>)) \<and>
   messages (reorder ''2'' ''3'' False (init\<lparr>messages := [item ''1'', item ''2'', item ''3'']\<rparr>)) =
     [item ''1'', item ''3'', item ''2'']"
  using reorder_adjacent_to_target
    [of "''2''" "''3''" "init\<lparr>messages := [item ''1'', item ''2'', item ''3'']\<rparr>" False]
  by (simp add: reorder_spec_def item_def)

section \<open>Identity of message items\<close>

text \<open>\<open>String\<close> is injective on the naturals: two counter values never print the same
  id.\<close>

lemma below_ten: "(a::nat) < 10 \<Longrightarrow> a \<in> {0, 1, 2, 3, 4, 5, 6, 7, 8, 9}"
  by auto

lemma digit_inj:
  assumes "a < 10" "b < 10" "digit_char a = digit_char b"
  shows "a = b"
proof -
  from below_ten[OF assms(1)] below_ten[OF assms(2)] assms(3) show ?thesis
    unfolding digit_char_def by auto
qed
lemma String_of_nonempty: "String_of n \<noteq> []"
  by (subst String_of.simps) simp

lemma String_of_inj: "String_of a = String_of b \<Longrightarrow> a = b"
proof (induction a arbitrary: b rule: String_of.induct)
  case (1 n)
  show ?case
  proof (cases "n < 10")
    case True
    then have sn: "String_of n = [digit_char n]" by (subst String_of.simps) simp
    show ?thesis
    proof (cases "b < 10")
      case True
      then have "String_of b = [digit_char b]" by (subst String_of.simps) simp
      with sn "1.prems" have "digit_char n = digit_char b" by simp
      with \<open>n < 10\<close> True show ?thesis by (rule digit_inj)
    next
      case False
      then have "String_of b = String_of (b div 10) @ [digit_char (b mod 10)]"
        by (subst String_of.simps) simp
      with sn "1.prems" have "String_of (b div 10) = []" by simp
      with String_of_nonempty show ?thesis by blast
    qed
  next
    case False
    then have sn: "String_of n = String_of (n div 10) @ [digit_char (n mod 10)]"
      by (subst String_of.simps) simp
    show ?thesis
    proof (cases "b < 10")
      case True
      then have "String_of b = [digit_char b]" by (subst String_of.simps) simp
      with sn "1.prems" have "String_of (n div 10) = []" by simp
      with String_of_nonempty show ?thesis by blast
    next
      case b: False
      then have sb: "String_of b = String_of (b div 10) @ [digit_char (b mod 10)]"
        by (subst String_of.simps) simp
      from sn sb "1.prems" have e1: "String_of (n div 10) = String_of (b div 10)"
        and e2: "digit_char (n mod 10) = digit_char (b mod 10)" by simp_all
      from "1.IH"[OF False e1] have d: "n div 10 = b div 10" .
      have m: "n mod 10 = b mod 10" by (rule digit_inj[OF _ _ e2]) simp_all
      from d m show ?thesis by (metis div_mult_mod_eq)
    qed
  qed
qed

text \<open>A drop permutes the message list and leaves the counter alone.\<close>

lemma splice_arr_insert_mset: "mset (snd (splice_arr k 0 [x] ms)) = add_mset x (mset ms)"
proof -
  have "mset (take n ms) + mset (drop n ms) = mset ms" for n
    by (metis append_take_drop_id mset_append)
  then show ?thesis by (simp add: splice_arr_def Let_def)
qed

lemma splice_arr_remove_cases:
  assumes "splice_arr i (Suc 0) [] xs = (r, ms)"
  shows "(r = [] \<and> ms = xs) \<or> (\<exists>x. r = [x] \<and> add_mset x (mset ms) = mset xs)"
proof -
  define k where "k = nat (if i < 0 then max (int (length xs) + i) 0 else min i (int (length xs)))"
  define d where "d = min (Suc 0) (length xs - k)"
  from assms have r: "r = take d (drop k xs)" and ms: "ms = take k xs @ drop (k + d) xs"
    by (simp_all add: splice_arr_def Let_def k_def d_def)
  show ?thesis
  proof (cases "k < length xs")
    case True
    then have d1: "d = Suc 0" by (simp add: d_def)
    from True have rx: "r = [xs ! k]" unfolding r d1
      by (simp add: take_Suc_conv_app_nth)
    have "xs = take k xs @ xs ! k # drop (Suc k) xs" using True by (simp add: id_take_nth_drop)
    then have "mset xs = add_mset (xs ! k) (mset (take k xs @ drop (Suc k) xs))"
      by (metis mset.simps(2) mset_append union_mset_add_mset_right)
    with rx ms d1 show ?thesis by simp
  next
    case False
    then have "d = 0" by (simp add: d_def)
    with False r ms show ?thesis by simp
  qed
qed

lemma handleDrop_mset: "mset (messages (handleDrop b t s)) = mset (messages s)"
proof -
  obtain r ms where sp: "splice_arr (case draggedId s of None \<Rightarrow> - 1
                            | Some d \<Rightarrow> findIndex (\<lambda>msg. m_id msg = d) (messages s)) (Suc 0) [] (messages s) = (r, ms)"
    by (cases "splice_arr (case draggedId s of None \<Rightarrow> - 1
                            | Some d \<Rightarrow> findIndex (\<lambda>msg. m_id msg = d) (messages s)) (Suc 0) [] (messages s)")
  from splice_arr_remove_cases[OF sp] show ?thesis
    by (auto simp: handleDrop_def Let_def sp splice_arr_insert_mset renderMessages_def saveMessages_def)
qed

lemma handleDrop_nextId: "nextId (handleDrop b t s) = nextId s"
  by (simp add: handleDrop_def Let_def renderMessages_def saveMessages_def split: prod.splits list.splits)

lemma reorder_mset: "mset (messages (reorder d t b s)) = mset (messages s)"
  using handleDrop_mset[of b t "handleDragStart d s"]
  by (simp add: reorder_def handleDragEnd_def handleDragStart_def)

lemma reorder_nextId: "nextId (reorder d t b s) = nextId s"
  by (simp add: reorder_def handleDragEnd_def handleDragStart_def handleDrop_nextId)

text \<open>The invariant is kept by every operation of a sequence.\<close>

lemma ids_ok_mset:
  assumes "ids_ok s" "mset (messages s') = mset (messages s)" "nextId s' = nextId s"
  shows "ids_ok s'"
proof -
  from assms(2) have "mset (map m_id (messages s')) = mset (map m_id (messages s))" by simp
  then have "distinct (map m_id (messages s')) = distinct (map m_id (messages s))"
    by (rule mset_eq_imp_distinct_iff)
  moreover from assms(2) have "set (messages s') = set (messages s)" by (rule mset_eq_setD)
  ultimately show ?thesis using assms(1,3) by (simp add: ids_ok_def)
qed

lemma ids_below: "ids_ok s \<Longrightarrow> nextId s \<le> n \<Longrightarrow> String_of n \<notin> m_id ` set (messages s)"
  by (auto simp: ids_ok_def dest!: String_of_inj bspec)

lemma ids_ok_addItem: "ids_ok s \<Longrightarrow> ids_ok (addItem s)"
  using ids_below[of s "nextId s"]
  by (auto simp: ids_ok_def addItem_def Let_def renderMessages_def saveMessages_def lessThan_Suc)

lemma ids_ok_deleteMessage: "ids_ok s \<Longrightarrow> ids_ok (deleteMessage i s)"
  by (auto simp: ids_ok_def deleteMessage_def renderMessages_def saveMessages_def distinct_map_filter)

lemma ids_ok_apply_op: "ids_ok s \<Longrightarrow> ids_ok (apply_op a s)"
  by (cases a) (auto intro: ids_ok_addItem ids_ok_deleteMessage ids_ok_mset reorder_mset reorder_nextId)

lemma nextId_apply_op: "nextId s \<le> nextId (apply_op a s)"
  by (cases a) (simp_all add: addItem_def deleteMessage_def Let_def renderMessages_def saveMessages_def reorder_nextId)

lemma ids_ok_exec: "ids_ok s \<Longrightarrow> ids_ok (exec ops s)"
  by (induction ops arbitrary: s) (auto intro: ids_ok_apply_op)

lemma nextId_exec: "nextId s \<le> nextId (exec ops s)"
proof (induction ops arbitrary: s)
  case Nil
  show ?case by simp
next
  case (Cons a ops)
  from nextId_apply_op[of s a] Cons[of "apply_op a s"] show ?case by simp
qed

lemma exec_append: "exec (pre @ post) s = exec post (exec pre s)"
  by (induction pre arbitrary: s) auto

lemma addItem_last: "m_id (last (messages (addItem s))) = String_of (nextId s)"
  by (simp add: addItem_def Let_def renderMessages_def saveMessages_def)

lemma ids_ok_init: "ids_ok init"
  by (simp add: ids_ok_def init_def)

text \<open>The other operations on the message list keep the invariant as well.\<close>

lemma map_update_first: "(\<And>x. g (f x) = g x) \<Longrightarrow> map g (update_first P f xs) = map g xs"
  by (induction xs) auto

lemma image_update_first:
  "(\<And>x. g (f x) = g x) \<Longrightarrow> g ` set (update_first P f xs) = g ` set xs"
  using map_update_first[of g f P xs] by (metis set_map)

lemma ids_ok_alt:
  "ids_ok s = (distinct (map m_id (messages s)) \<and>
               set (map m_id (messages s)) \<subseteq> String_of ` {..<nextId s})"
  by (auto simp: ids_ok_def)

lemma ids_ok_deleteAllMessages: "ids_ok (deleteAllMessages s)"
  by (simp add: ids_ok_def deleteAllMessages_def renderMessages_def saveMessages_def)

lemma ids_ok_update_first:
  assumes "ids_ok s" and "\<And>x. m_id (f x) = m_id x"
    and "messages s' = update_first P f (messages s)" and "nextId s' = nextId s"
  shows "ids_ok s'"
  using assms(1) by (simp add: ids_ok_alt assms(3,4) map_update_first[of m_id f, OF assms(2)]
      image_update_first[of m_id f, OF assms(2)])

lemma ids_ok_updateMessageText: "ids_ok s \<Longrightarrow> ids_ok (updateMessageText i t s)"
proof (cases "find (\<lambda>msg. m_id msg = i) (messages s)")
  case None
  assume "ids_ok s"
  with None show ?thesis by (simp add: updateMessageText_def)
next
  case (Some m)
  assume s: "ids_ok s"
  show ?thesis
    by (rule ids_ok_update_first[OF s, of "\<lambda>msg. msg\<lparr>m_text := t\<rparr>" _ "\<lambda>msg. m_id msg = i"])
       (simp_all add: updateMessageText_def Some saveMessages_def)
qed

lemma ids_ok_updateMessageImage:
  assumes s: "ids_ok s" and u: "updateMessageImage rd i f s = Inr s'"
  shows "ids_ok s'"
proof (cases "s' = s")
  case True
  with s show ?thesis by simp
next
  case False
  with u obtain dataUrl where
    "s' = saveMessages (renderMessages (s\<lparr>messages :=
            update_first (\<lambda>msg. m_id msg = i)
              (\<lambda>msg. msg\<lparr>m_image :=
                 Some \<lparr>img_blob = f, img_mimeType = blob_type f, img_dataUrl = dataUrl\<rparr>\<rparr>)
              (messages s)\<rparr>))"
    by (auto simp: updateMessageImage_def split: if_splits option.splits sum.splits)
  then show ?thesis
    by (intro ids_ok_update_first[OF s, of
          "\<lambda>msg. msg\<lparr>m_image :=
             Some \<lparr>img_blob = f, img_mimeType = blob_type f, img_dataUrl = dataUrl\<rparr>\<rparr>"
          _ "\<lambda>msg. m_id msg = i"])
       (simp_all add: saveMessages_def renderMessages_def)
qed

lemma ids_ok_addTemplateMessages:
  "ids_ok s \<Longrightarrow> ids_ok (snd (addTemplateMessages fetch ms s))"
proof (induction ms arbitrary: s)
  case Nil
  then show ?case by simp
next
  case (Cons msg ms)
  have fresh: "String_of (nextId s) \<notin> m_id ` set (messages s)"
    by (rule ids_below[OF Cons.prems]) simp
  have grow: "ids_ok (s\<lparr>nextId := Suc (nextId s), messages := messages s @ [m]\<rparr>)"
    if "m_id m = String_of (nextId s)" for m
    using Cons.prems fresh that by (auto simp: ids_ok_def lessThan_Suc)
  have skip: "ids_ok (s\<lparr>nextId := Suc (nextId s)\<rparr>)"
    using Cons.prems by (auto simp: ids_ok_def lessThan_Suc)
  show ?case
    by (auto simp: Let_def skip split: option.splits sum.splits intro!: Cons.IH grow)
qed

lemma ids_ok_loadTemplate: "ids_ok s \<Longrightarrow> ids_ok (loadTemplate asyncTemplates fetch name s)"
proof -
  assume s: "ids_ok s"
  have a: "ids_ok (alert m s)" for m using s by (simp add: ids_ok_def alert_def)
  have r: "ids_ok s0 \<Longrightarrow> ids_ok (saveMessages (renderMessages s0))" for s0
    by (simp add: ids_ok_def renderMessages_def saveMessages_def)
  have al: "ids_ok s0 \<Longrightarrow> ids_ok (alert m s0)" for m s0
    by (simp add: ids_ok_def alert_def)
  have z: "ids_ok (s\<lparr>messages := [], nextId := 1\<rparr>)"
    "ids_ok (saveSystemMessage t (s\<lparr>messages := [], nextId := 1, systemMessage := t\<rparr>))" for t
    by (simp_all add: ids_ok_def saveSystemMessage_def)
  show ?thesis
    using ids_ok_addTemplateMessages[OF z(1), of fetch]
      ids_ok_addTemplateMessages[OF z(2), of fetch]
    by (auto simp: loadTemplate_def Let_def a split: option.splits sum.splits prod.splits
        intro!: r al) (metis snd_conv)+
qed

text \<open>
  Claim C9.  From any state whose message ids are pairwise distinct and were issued by
  the counter (as in the initial state, and as every operation on the list keeps it),
  after every finite sequence of add, delete and reorder operations the ids of the list
  are pairwise distinct; the counter after the whole sequence is at least the counter
  after any initial part of it; and the id the next add issues is not the id of any item
  that was in the list after any initial part of the sequence, so the id of an item that
  has been deleted since is never issued again.
\<close>

theorem message_ids_unique_never_reissued:
  assumes "ids_ok s"
  shows "distinct (map m_id (messages (exec ops s))) \<and>
     (\<forall>pre post. ops = pre @ post \<longrightarrow>
        nextId (exec pre s) \<le> nextId (exec ops s) \<and>
        m_id (last (messages (addItem (exec ops s)))) \<notin> m_id ` set (messages (exec pre s)))"
proof (intro conjI allI impI)
  from ids_ok_exec[OF assms] show "distinct (map m_id (messages (exec ops s)))"
    by (simp add: ids_ok_def)
next
  fix pre post assume o: "ops = pre @ post"
  show "nextId (exec pre s) \<le> nextId (exec ops s)"
    unfolding o exec_append by (rule nextId_exec)
  show "m_id (last (messages (addItem (exec ops s)))) \<notin> m_id ` set (messages (exec pre s))"
    unfolding addItem_last o exec_append
    by (rule ids_below[OF ids_ok_exec[OF assms] nextId_exec])
qed

theorem message_ids_unique_never_reissued_witness:
  "ids_ok init \<and>
   messages (exec [Add, Add] init) = [item ''1'', item ''2''] \<and>
   messages (exec ([Add, Add] @ [Delete ''1'', Reorder ''2'' ''1'' True]) init) = [item ''2''] \<and>
   distinct (map m_id (messages (exec ([Add, Add] @ [Delete ''1'', Reorder ''2'' ''1'' True]) init))) \<and>
   nextId (exec [Add, Add] init) \<le>
     nextId (exec ([Add, Add] @ [Delete ''1'', Reorder ''2'' ''1'' True]) init) \<and>
   m_id (last (messages (addItem (exec ([Add, Add] @ [Delete ''1'', Reorder ''2'' ''1'' True]) init))))
     \<notin> m_id ` set (messages (exec [Add, Add] init))"
proof -
  have h: "ids_ok init"
    by (simp add: ids_ok_def init_def)
  have a: "messages (exec [Add, Add] init) = [item ''1'', item ''2'']"
    by code_simp
  have b: "messages (exec ([Add, Add] @ [Delete ''1'', Reorder ''2'' ''1'' True]) init) = [item ''2'']"
    by code_simp
  from message_ids_unique_never_reissued
    [OF h, of "[Add, Add] @ [Delete ''1'', Reorder ''2'' ''1'' True]"] h a b
  show ?thesis by blast
qed

section \<open>Serialization\<close>

text \<open>Both loops work item by item, and add to the parts they are given.\<close>

lemma imageModeParts_append:
  "imageModeParts rd (xs @ ys) ps =
     (case imageModeParts rd xs ps of Inl e \<Rightarrow> Inl e | Inr ps1 \<Rightarrow> imageModeParts rd ys ps1)"
  by (induction rd xs ps rule: imageModeParts.induct) (auto simp: Let_def split: sum.splits option.splits)

lemma textModeParts_append:
  "textModeParts rd (xs @ ys) ps =
     (case textModeParts rd xs ps of Inl e \<Rightarrow> Inl e | Inr ps1 \<Rightarrow> textModeParts rd ys ps1)"
  by (induction rd xs ps rule: textModeParts.induct) (auto simp: Let_def split: sum.splits option.splits)

lemma imageModeParts_prefix:
  "imageModeParts rd xs ps = (case imageModeParts rd xs [] of Inl e \<Rightarrow> Inl e | Inr r \<Rightarrow> Inr (ps @ r))"
proof (induction xs arbitrary: ps rule: rev_induct)
  case Nil
  show ?case by simp
next
  case (snoc x xs)
  show ?case
    unfolding imageModeParts_append
    by (subst snoc) (auto simp: Let_def split: sum.splits option.splits)
qed

lemma textModeParts_prefix:
  "textModeParts rd xs ps = (case textModeParts rd xs [] of Inl e \<Rightarrow> Inl e | Inr r \<Rightarrow> Inr (ps @ r))"
proof (induction xs arbitrary: ps rule: rev_induct)
  case Nil
  show ?case by simp
next
  case (snoc x xs)
  show ?case
    unfolding textModeParts_append
    by (subst snoc) (auto simp: Let_def split: sum.splits option.splits)
qed

lemma imageModeParts_item:
  assumes img: "m_image m = Some img" and r: "imageModeParts rd (pre @ m # post) ps = Inr result"
  shows "\<exists>before d rest. imageModeParts rd pre ps = Inr before \<and>
           blobToBase64 rd (img_blob img) = Inr d \<and>
           result = before @
             [Text (if trim (m_text m) = [] then ''See image:''
                    else trim (m_text m) @ CHR 0x0A # ''See image:''),
              InlineData d (img_mimeType img)] @ rest"
proof -
  from r obtain before where b: "imageModeParts rd pre ps = Inr before"
    and r1: "imageModeParts rd (m # post) before = Inr result"
    by (auto simp: imageModeParts_append split: sum.splits)
  from r1 img obtain d where d: "blobToBase64 rd (img_blob img) = Inr d"
    and r2: "imageModeParts rd post (before @
             [Text (if trim (m_text m) = [] then ''See image:''
                    else trim (m_text m) @ CHR 0x0A # ''See image:''),
              InlineData d (img_mimeType img)]) = Inr result"
    by (auto simp: Let_def split: sum.splits if_splits)
  from r2 obtain rest where "result = (before @
             [Text (if trim (m_text m) = [] then ''See image:''
                    else trim (m_text m) @ CHR 0x0A # ''See image:''),
              InlineData d (img_mimeType img)]) @ rest"
    by (subst (asm) imageModeParts_prefix) (auto split: sum.splits)
  with b d show ?thesis by auto
qed

lemma textModeParts_item:
  assumes img: "m_image m = Some img" and r: "textModeParts rd (pre @ m # post) ps = Inr result"
  shows "\<exists>before d rest. textModeParts rd pre ps = Inr before \<and>
           blobToBase64 rd (img_blob img) = Inr d \<and>
           result = before @
             [Text (if trim (m_text m) = [] then ''See image:''
                    else trim (m_text m) @ '' See image:''),
              InlineData d (img_mimeType img)] @ rest"
proof -
  from r obtain before where b: "textModeParts rd pre ps = Inr before"
    and r1: "textModeParts rd (m # post) before = Inr result"
    by (auto simp: textModeParts_append split: sum.splits)
  from r1 img obtain d where d: "blobToBase64 rd (img_blob img) = Inr d"
    and r2: "textModeParts rd post (before @
             [Text (if trim (m_text m) = [] then ''See image:''
                    else trim (m_text m) @ '' See image:''),
              InlineData d (img_mimeType img)]) = Inr result"
    by (auto simp: Let_def split: sum.splits if_splits)
  from r2 obtain rest where "result = (before @
             [Text (if trim (m_text m) = [] then ''See image:''
                    else trim (m_text m) @ '' See image:''),
              InlineData d (img_mimeType img)]) @ rest"
    by (subst (asm) textModeParts_prefix) (auto split: sum.splits)
  with b d show ?thesis by auto
qed

lemma image_mode_example:
  "imageModeParts reader [hi] [] =
     Inr [Text (''hi'' @ CHR 0x0A # ''See image:''), InlineData (Some ''QUJD'') ''image/png'']"
  by code_simp
lemma text_mode_example:
  "textModeParts reader [hi] [] =
     Inr [Text ''hi See image:'', InlineData (Some ''QUJD'') ''image/png'']"
  by code_simp
text \<open>
  Claim C1.  Whenever the serializer returns parts for a message list, every item of the
  list that has an image contributes a text part immediately followed by the inline-data
  part of its image (the encoded blob and the MIME type): in image mode the text part is
  the trimmed text, a newline and \<open>See image:\<close>, in text mode the trimmed text, one
  space and \<open>See image:\<close>, and in both modes \<open>See image:\<close> alone when the trimmed text is
  empty.  The item with text \<open>hi\<close> and an image gives \<open>hi\nSee image:\<close> and the
  inline data in image mode, and \<open>hi See image:\<close> and the inline data in text mode.
\<close>

theorem image_item_parts:
  "(m_image m = Some img \<and> imageModeParts rd (pre @ m # post) ps = Inr result \<longrightarrow>
      (\<exists>before d rest.
          imageModeParts rd pre ps = Inr before \<and>
          blobToBase64 rd (img_blob img) = Inr d \<and>
          result = before @
            [Text (if trim (m_text m) = [] then ''See image:''
                   else trim (m_text m) @ CHR 0x0A # ''See image:''),
             InlineData d (img_mimeType img)] @ rest)) \<and>
   (m_image m = Some img \<and> textModeParts rd (pre @ m # post) ps = Inr result' \<longrightarrow>
      (\<exists>before d rest.
          textModeParts rd pre ps = Inr before \<and>
          blobToBase64 rd (img_blob img) = Inr d \<and>
          result' = before @
            [Text (if trim (m_text m) = [] then ''See image:''
                   else trim (m_text m) @ '' See image:''),
             InlineData d (img_mimeType img)] @ rest)) \<and>
   imageModeParts reader [hi] [] =
     Inr [Text (''hi'' @ CHR 0x0A # ''See image:''), InlineData (Some ''QUJD'') ''image/png''] \<and>
   textModeParts reader [hi] [] =
     Inr [Text ''hi See image:'', InlineData (Some ''QUJD'') ''image/png'']"
  using imageModeParts_item [of m img rd pre post ps result]
    textModeParts_item [of m img rd pre post ps result']
    image_mode_example text_mode_example
  by blast

theorem image_item_parts_witness:
  "m_image hi = Some hi_image \<and>
   imageModeParts reader ([item ''0''] @ hi # []) [] =
     Inr [Text (''hi'' @ CHR 0x0A # ''See image:''), InlineData (Some ''QUJD'') ''image/png''] \<and>
   textModeParts reader ([item ''0''] @ hi # []) [] =
     Inr [Text ''hi See image:'', InlineData (Some ''QUJD'') ''image/png''] \<and>
   (\<exists>before d rest.
       imageModeParts reader [item ''0''] [] = Inr before \<and>
       blobToBase64 reader (img_blob hi_image) = Inr d \<and>
       [Text (''hi'' @ CHR 0x0A # ''See image:''), InlineData (Some ''QUJD'') ''image/png''] =
         before @
           [Text (if trim (m_text hi) = [] then ''See image:''
                  else trim (m_text hi) @ CHR 0x0A # ''See image:''),
            InlineData d (img_mimeType hi_image)] @ rest) \<and>
   (\<exists>before d rest.
       textModeParts reader [item ''0''] [] = Inr before \<and>
       blobToBase64 reader (img_blob hi_image) = Inr d \<and>
       [Text ''hi See image:'', InlineData (Some ''QUJD'') ''image/png''] =
         before @
           [Text (if trim (m_text hi) = [] then ''See image:''
                  else trim (m_text hi) @ '' See image:''),
            InlineData d (img_mimeType hi_image)] @ rest)"
proof -
  have h: "m_image hi = Some hi_image"
    by (simp add: hi_def)
  have i: "imageModeParts reader ([item ''0''] @ hi # []) [] =
     Inr [Text (''hi'' @ CHR 0x0A # ''See image:''), InlineData (Some ''QUJD'') ''image/png'']"
    by code_simp
  have t: "textModeParts reader ([item ''0''] @ hi # []) [] =
     Inr [Text ''hi See image:'', InlineData (Some ''QUJD'') ''image/png'']"
    by code_simp
  from image_item_parts
    [of hi hi_image reader "[item ''0'']" "[]" "[]"
        "[Text (''hi'' @ CHR 0x0A # ''See image:''), InlineData (Some ''QUJD'') ''image/png'']"
        "[Text ''hi See image:'', InlineData (Some ''QUJD'') ''image/png'']"]
    h i t
  show ?thesis by blast
qed

section \<open>Outputs and the generation flows\<close>

text \<open>Trimming a trimmed string changes nothing.\<close>

lemma trim_idem: "trim (trim s) = trim s"
proof -
  define u where "u = dropWhile isWhiteSpace s"
  define v where "v = dropWhile isWhiteSpace (rev u)"
  have t: "trim s = rev v" by (simp add: trim_def u_def v_def)
  have vv: "dropWhile isWhiteSpace v = v" by (simp add: v_def)
  have "dropWhile isWhiteSpace (rev v) = rev v"
  proof (cases "v = []")
    case True
    then show ?thesis by simp
  next
    case False
    have "rev u = takeWhile isWhiteSpace (rev u) @ v" by (simp add: v_def)
    with False have "last (rev u) = last v" by (metis last_appendR)
    moreover from False have "u \<noteq> []" by (auto simp: v_def)
    ultimately have "hd u = last v" by (simp add: last_rev)
    moreover from \<open>u \<noteq> []\<close> have "\<not> isWhiteSpace (hd u)"
      unfolding u_def by (rule hd_dropWhile)
    ultimately have "\<not> isWhiteSpace (hd (rev v))" using False by (simp add: hd_rev)
    then show ?thesis by (simp add: dropWhile_eq_self_iff)
  qed
  then show ?thesis unfolding t by (simp add: trim_def vv)
qed

text \<open>Creating an output, and updating the output at the front of the list.\<close>

lemma addOutput_eq:
  "addOutput b s =
     (String_of (nextOutputId s),
      s\<lparr>nextOutputId := nextOutputId s + 1, outputs := created b s # outputs s,
        rendered_outputs := rendered_outputs s @ [created b s # outputs s]\<rparr>)"
  by (simp add: addOutput_def created_def renderOutputs_def Let_def)

lemma updateOutput_head:
  "outputs s = out # rest \<Longrightarrow> o_id out = oid \<Longrightarrow>
   updateOutput oid u t s =
     s\<lparr>outputs := finalized u t out # rest,
       rendered_outputs := rendered_outputs s @ [finalized u t out # rest],
       store_outputs := Some (finalized u t out # filter (\<lambda>out. \<not> o_loading out) rest)\<rparr>"
  by (simp add: updateOutput_def finalized_def renderOutputs_def saveOutputs_def)

lemma updateOutput_frame [simp]:
  "requests (updateOutput oid u t s) = requests s"
  "alerts (updateOutput oid u t s) = alerts s"
  "messages (updateOutput oid u t s) = messages s"
  by (simp_all add: updateOutput_def renderOutputs_def saveOutputs_def split: option.splits)

lemma finalized_simps [simp]:
  "o_id (finalized u t out) = o_id out"
  "o_loading (finalized u t out) = False"
  "o_text (finalized u t out) = t"
  "o_imageUrl (finalized u t out) = u"
  "finalized u t (finalized u' t' out) = finalized u t out"
  by (simp_all add: finalized_def)

lemma created_simps [simp]:
  "o_id (created b s) = String_of (nextOutputId s)"
  "o_loading (created b s) = True"
  by (simp_all add: created_def)

text \<open>The loop of the text flow: its running string, and the output lists it draws when
  the output is at the front of the list.\<close>

lemma consumeText_frame [simp]:
  "requests (snd (consumeText oid cs acc s)) = requests s"
  "alerts (snd (consumeText oid cs acc s)) = alerts s"
  "messages (snd (consumeText oid cs acc s)) = messages s"
  by (induction oid cs acc s rule: consumeText.induct) (simp_all add: Let_def)

lemma consumeText_fst: "fst (consumeText oid cs acc s) = acc @ concat (deltas cs)"
  by (induction oid cs acc s rule: consumeText.induct) (simp_all add: Let_def deltas_def)

lemma running_Cons:
  "map (\<lambda>k. f (take k (d # ds))) [1..<Suc (Suc n)] = f [d] # map (\<lambda>k. f (d # take k ds)) [1..<Suc n]"
proof -
  have "[1..<Suc (Suc n)] = 1 # map Suc [1..<Suc n]"
    by (metis One_nat_def map_Suc_upt upt_conv_Cons zero_less_Suc Suc_less_eq)
  then show ?thesis by (simp add: comp_def)
qed

lemma deltas_Nil: "deltas [] = []"
  by (simp add: deltas_def)

lemma consumeText_head:
  "outputs s = out # rest \<Longrightarrow> o_id out = oid \<Longrightarrow>
   outputs (snd (consumeText oid cs acc s)) =
     (if cs = [] then out else finalized None (acc @ concat (deltas cs)) out) # rest \<and>
   rendered_outputs (snd (consumeText oid cs acc s)) =
     rendered_outputs s @
       map (\<lambda>k. finalized None (acc @ concat (take k (deltas cs))) out # rest) [1..<Suc (length cs)]"
proof (induction cs arbitrary: acc s out)
  case Nil
  then show ?case by simp
next
  case (Cons c cs)
  let ?d = "or_else (chunk_text c) []"
  let ?s1 = "updateOutput oid None (acc @ ?d) s"
  have o1: "outputs ?s1 = finalized None (acc @ ?d) out # rest"
    and r1: "rendered_outputs ?s1 = rendered_outputs s @ [finalized None (acc @ ?d) out # rest]"
    by (simp_all add: updateOutput_head[OF Cons.prems])
  have i1: "o_id (finalized None (acc @ ?d) out) = oid" using Cons.prems by simp
  note IH = Cons.IH[OF o1 i1, of "acc @ ?d"]
  have d: "deltas (c # cs) = ?d # deltas cs" by (simp add: deltas_def)
  have len: "length (deltas cs) = length cs" by (simp add: deltas_def)
  show ?case
    unfolding d
    using IH running_Cons[of "\<lambda>ds. finalized None (acc @ concat ds) out # rest" ?d "deltas cs" "length cs"]
    by (simp add: Let_def r1 deltas_Nil del: upt_Suc)
qed

text \<open>The loops of the image flow compute the produced images and the accumulated text.\<close>

lemma collectParts_eq:
  "collectParts ps (urls, tc) =
     (urls @ map image_url (filter (\<lambda>p. rp_inlineData p \<noteq> None) ps),
      tc @ concat (map (\<lambda>p. or_else (rp_text p) []) (filter (\<lambda>p. rp_inlineData p = None) ps)))"
  by (induction ps arbitrary: urls tc) (auto simp: image_url_def or_else_def split: option.splits)

lemma collectChunks_eq:
  "collectChunks cs (urls, tc) =
     (urls @ map image_url (filter (\<lambda>p. rp_inlineData p \<noteq> None) (stream_parts cs)),
      tc @ concat (map (\<lambda>p. or_else (rp_text p) []) (filter (\<lambda>p. rp_inlineData p = None) (stream_parts cs))))"
  by (induction cs arbitrary: urls tc) (simp_all add: stream_parts_def collectParts_eq)

lemma collectChunks_produced:
  "collectChunks cs ([], []) = (produced_images cs, accumulated_text cs)"
  by (simp add: collectChunks_eq produced_images_def accumulated_text_def)

text \<open>The three ways \<open>generateTextContent\<close> can go.\<close>

lemma generateTextContent_unreadable:
  "textModeParts rd (messages s) [] = Inl e \<Longrightarrow>
   generateTextContent rd ai systemMsg oid s = (Some e, s)"
  by (simp add: generateTextContent_def)

lemma generateTextContent_refused:
  "textModeParts rd (messages s) [] = Inr ps \<Longrightarrow> ai (text_request systemMsg ps) = Inl e \<Longrightarrow>
   generateTextContent rd ai systemMsg oid s =
     (Some e, s\<lparr>requests := requests s @ [text_request systemMsg ps]\<rparr>)"
  by (simp add: generateTextContent_def text_request_def Let_def)

lemma generateTextContent_streamed:
  "textModeParts rd (messages s) [] = Inr ps \<Longrightarrow> ai (text_request systemMsg ps) = Inr response \<Longrightarrow>
   generateTextContent rd ai systemMsg oid s =
     (let s2 = snd (consumeText oid (rs_chunks response) []
                 (s\<lparr>requests := requests s @ [text_request systemMsg ps]\<rparr>))
      in case rs_error response of
           Some e \<Rightarrow> (Some e, s2)
         | None \<Rightarrow>
             (None, updateOutput oid None
                (or_else (Some (concat (deltas (rs_chunks response))))
                   ''Text generation complete, but no text was returned.'') s2))"
  by (simp add: generateTextContent_def text_request_def Let_def case_prod_beta consumeText_fst
      split: option.splits)

text \<open>The three ways \<open>generateImageContent\<close> can go.\<close>

lemma generateImageContent_unreadable:
  "imageModeParts rd (messages s) [] = Inl e \<Longrightarrow>
   generateImageContent rd ai systemMsg oid s = (Some e, s)"
  by (subst generateImageContent_def, subst imageModeParts_prefix) simp

lemma generateImageContent_refused:
  "imageModeParts rd (messages s) [] = Inr ps \<Longrightarrow> ai (image_request systemMsg ps) = Inl e \<Longrightarrow>
   generateImageContent rd ai systemMsg oid s =
     (Some e, s\<lparr>requests := requests s @ [image_request systemMsg ps]\<rparr>)"
  by (subst generateImageContent_def, subst imageModeParts_prefix)
     (simp add: image_request_def Let_def)

lemma generateImageContent_streamed:
  "imageModeParts rd (messages s) [] = Inr ps \<Longrightarrow> ai (image_request systemMsg ps) = Inr response \<Longrightarrow>
   generateImageContent rd ai systemMsg oid s =
     (let s1 = s\<lparr>requests := requests s @ [image_request systemMsg ps]\<rparr>
      in case rs_error response of
           Some e \<Rightarrow> (Some e, s1)
         | None \<Rightarrow>
             (case produced_images (rs_chunks response) of
                finalImageUrl # _ \<Rightarrow>
                  (None, updateOutput oid (Some finalImageUrl)
                     (or_else (Some (accumulated_text (rs_chunks response)))
                        ''Image successfully generated.'') s1)
              | [] \<Rightarrow>
                  (None, updateOutput oid (Some PLACEHOLDER_IMAGE)
                     (or_else (Some (accumulated_text (rs_chunks response)))
                        ''Generation complete, but no image was returned.'') s1)))"
  by (subst generateImageContent_def, subst imageModeParts_prefix)
     (simp add: image_request_def Let_def collectChunks_produced)

text \<open>The entry operations on a request that is not valid, and on a valid one.\<close>

lemma handleGenerateImage_invalid:
  "\<not> valid_request s \<Longrightarrow>
   handleGenerateImage rd G s =
     (None,
      alert (if trim (apiKeyInput s) = [] then ''Please provide an API Key.''
             else ''Please provide either a system message or at least one message item.'') s)"
  by (auto simp: handleGenerateImage_def valid_request_def Let_def)

lemma handleGenerateText_invalid:
  "\<not> valid_request s \<Longrightarrow>
   handleGenerateText rd G s =
     (None,
      alert (if trim (apiKeyInput s) = [] then ''Please provide an API Key.''
             else ''Please provide either a system message or at least one message item.'') s)"
  by (auto simp: handleGenerateText_def valid_request_def Let_def)

lemma handleGenerateImage_valid:
  "valid_request s \<Longrightarrow>
   handleGenerateImage rd G s =
     (case generateImageContent rd (G (trim (apiKeyInput s))) (trim (systemMessage s))
             (String_of (nextOutputId s)) (snd (addOutput True s)) of
        (None, s2) \<Rightarrow> (None, s2)
      | (Some Nullish, s2) \<Rightarrow> (Some TypeError, s2)
      | (Some (Error m), s2) \<Rightarrow>
          (None,
           updateOutput (String_of (nextOutputId s)) (Some PLACEHOLDER_IMAGE) (error_text m) s2))"
  unfolding error_text_def
  by (auto simp: handleGenerateImage_def valid_request_def Let_def addOutput_eq)

lemma handleGenerateText_valid:
  "valid_request s \<Longrightarrow>
   handleGenerateText rd G s =
     (case generateTextContent rd (G (trim (apiKeyInput s))) (trim (systemMessage s))
             (String_of (nextOutputId s)) (snd (addOutput False s)) of
        (None, s2) \<Rightarrow> (None, s2)
      | (Some Nullish, s2) \<Rightarrow> (Some TypeError, s2)
      | (Some (Error m), s2) \<Rightarrow>
          (None, updateOutput (String_of (nextOutputId s)) None (error_text m) s2))"
  unfolding error_text_def
  by (auto simp: handleGenerateText_def valid_request_def Let_def addOutput_eq)

text \<open>What the \<open>catch\<close> block does to the outcome of a flow.\<close>

lemma handleGenerateImage_caught:
  assumes "valid_request s"
    and "generateImageContent rd (G (trim (apiKeyInput s))) (trim (systemMessage s))
           (String_of (nextOutputId s)) (snd (addOutput True s)) = (r, s2)"
  shows "handleGenerateImage rd G s =
     (case r of
        None \<Rightarrow> (None, s2)
      | Some Nullish \<Rightarrow> (Some TypeError, s2)
      | Some (Error m) \<Rightarrow>
          (None,
           updateOutput (String_of (nextOutputId s)) (Some PLACEHOLDER_IMAGE) (error_text m) s2))"
  by (simp add: handleGenerateImage_valid[OF assms(1)] assms(2) split: option.splits error.splits)

lemma handleGenerateText_caught:
  assumes "valid_request s"
    and "generateTextContent rd (G (trim (apiKeyInput s))) (trim (systemMessage s))
           (String_of (nextOutputId s)) (snd (addOutput False s)) = (r, s2)"
  shows "handleGenerateText rd G s =
     (case r of
        None \<Rightarrow> (None, s2)
      | Some Nullish \<Rightarrow> (Some TypeError, s2)
      | Some (Error m) \<Rightarrow>
          (None, updateOutput (String_of (nextOutputId s)) None (error_text m) s2))"
  by (simp add: handleGenerateText_valid[OF assms(1)] assms(2) split: option.splits error.splits)

text \<open>The requests submitted and the alerts shown.\<close>

lemma requests_generateImageContent:
  "imageModeParts rd (messages s) [] = Inr ps \<Longrightarrow>
   requests (snd (generateImageContent rd ai systemMsg oid s)) = requests s @ [image_request systemMsg ps]"
  by (cases "ai (image_request systemMsg ps)")
     (simp_all add: generateImageContent_refused generateImageContent_streamed Let_def
        split: option.splits list.splits)

lemma requests_generateTextContent:
  "textModeParts rd (messages s) [] = Inr ps \<Longrightarrow>
   requests (snd (generateTextContent rd ai systemMsg oid s)) = requests s @ [text_request systemMsg ps]"
  by (cases "ai (text_request systemMsg ps)")
     (simp_all add: generateTextContent_refused generateTextContent_streamed Let_def
        split: option.splits)

lemma addOutput_frame [simp]:
  "requests (snd (addOutput b s)) = requests s"
  "alerts (snd (addOutput b s)) = alerts s"
  "messages (snd (addOutput b s)) = messages s"
  "outputs (snd (addOutput b s)) = created b s # outputs s"
  "rendered_outputs (snd (addOutput b s)) = rendered_outputs s @ [created b s # outputs s]"
  by (simp_all add: addOutput_eq)

lemma requests_handleGenerateImage:
  assumes "valid_request s"
  shows "requests (snd (handleGenerateImage rd G s)) =
     (case imageModeParts rd (messages s) [] of
        Inl e \<Rightarrow> requests s
      | Inr ps \<Rightarrow> requests s @ [image_request (trim (systemMessage s)) ps])"
proof -
  obtain r s2 where g: "generateImageContent rd (G (trim (apiKeyInput s))) (trim (systemMessage s))
           (String_of (nextOutputId s)) (snd (addOutput True s)) = (r, s2)"
    by (cases "generateImageContent rd (G (trim (apiKeyInput s))) (trim (systemMessage s))
           (String_of (nextOutputId s)) (snd (addOutput True s))")
  have h: "requests (snd (handleGenerateImage rd G s)) = requests s2"
    by (simp add: handleGenerateImage_caught[where G = G, OF assms g] split: option.splits error.splits)
  show ?thesis
  proof (cases "imageModeParts rd (messages s) []")
    case (Inl e)
    with g have "s2 = snd (addOutput True s)"
      by (simp add: generateImageContent_unreadable)
    with h Inl show ?thesis by simp
  next
    case (Inr ps)
    from requests_generateImageContent
      [where rd = rd and s = "snd (addOutput True s)" and ps = ps
         and ai = "G (trim (apiKeyInput s))" and systemMsg = "trim (systemMessage s)"
         and oid = "String_of (nextOutputId s)"] Inr g
    have "requests s2 = requests s @ [image_request (trim (systemMessage s)) ps]"
      by simp
    with h Inr show ?thesis by simp
  qed
qed

lemma requests_handleGenerateText:
  assumes "valid_request s"
  shows "requests (snd (handleGenerateText rd G s)) =
     (case textModeParts rd (messages s) [] of
        Inl e \<Rightarrow> requests s
      | Inr ps \<Rightarrow> requests s @ [text_request (trim (systemMessage s)) ps])"
proof -
  obtain r s2 where g: "generateTextContent rd (G (trim (apiKeyInput s))) (trim (systemMessage s))
           (String_of (nextOutputId s)) (snd (addOutput False s)) = (r, s2)"
    by (cases "generateTextContent rd (G (trim (apiKeyInput s))) (trim (systemMessage s))
           (String_of (nextOutputId s)) (snd (addOutput False s))")
  have h: "requests (snd (handleGenerateText rd G s)) = requests s2"
    by (simp add: handleGenerateText_caught[where G = G, OF assms g] split: option.splits error.splits)
  show ?thesis
  proof (cases "textModeParts rd (messages s) []")
    case (Inl e)
    with g have "s2 = snd (addOutput False s)"
      by (simp add: generateTextContent_unreadable)
    with h Inl show ?thesis by simp
  next
    case (Inr ps)
    from requests_generateTextContent
      [where rd = rd and s = "snd (addOutput False s)" and ps = ps
         and ai = "G (trim (apiKeyInput s))" and systemMsg = "trim (systemMessage s)"
         and oid = "String_of (nextOutputId s)"] Inr g
    have "requests s2 = requests s @ [text_request (trim (systemMessage s)) ps]"
      by simp
    with h Inr show ?thesis by simp
  qed
qed

lemma alerts_generate [simp]:
  "alerts (snd (generateImageContent rd ai systemMsg oid s)) = alerts s"
  "alerts (snd (generateTextContent rd ai systemMsg oid s)) = alerts s"
  by (simp_all add: generateImageContent_def generateTextContent_def Let_def case_prod_beta
      split: sum.splits option.splits list.splits)

lemma alerts_handle:
  "valid_request s \<Longrightarrow> alerts (snd (handleGenerateImage rd G s)) = alerts s"
  "valid_request s \<Longrightarrow> alerts (snd (handleGenerateText rd G s)) = alerts s"
proof -
  assume v: "valid_request s"
  obtain r s2 where g: "generateImageContent rd (G (trim (apiKeyInput s))) (trim (systemMessage s))
           (String_of (nextOutputId s)) (snd (addOutput True s)) = (r, s2)"
    by (cases "generateImageContent rd (G (trim (apiKeyInput s))) (trim (systemMessage s))
           (String_of (nextOutputId s)) (snd (addOutput True s))")
  from alerts_generate(1)[of rd "G (trim (apiKeyInput s))" "trim (systemMessage s)"
      "String_of (nextOutputId s)" "snd (addOutput True s)"] g
  have "alerts s2 = alerts s" by simp
  then show "alerts (snd (handleGenerateImage rd G s)) = alerts s"
    by (simp add: handleGenerateImage_caught[where G = G, OF v g] split: option.splits error.splits)
next
  assume v: "valid_request s"
  obtain r s2 where g: "generateTextContent rd (G (trim (apiKeyInput s))) (trim (systemMessage s))
           (String_of (nextOutputId s)) (snd (addOutput False s)) = (r, s2)"
    by (cases "generateTextContent rd (G (trim (apiKeyInput s))) (trim (systemMessage s))
           (String_of (nextOutputId s)) (snd (addOutput False s))")
  from alerts_generate(2)[of rd "G (trim (apiKeyInput s))" "trim (systemMessage s)"
      "String_of (nextOutputId s)" "snd (addOutput False s)"] g
  have "alerts s2 = alerts s" by simp
  then show "alerts (snd (handleGenerateText rd G s)) = alerts s"
    by (simp add: handleGenerateText_caught[where G = G, OF v g] split: option.splits error.splits)
qed

text \<open>Every text part of the text flow is the text emitted for a message item.\<close>

lemma textModeParts_texts:
  "textModeParts rd ms ps0 = Inr ps \<Longrightarrow> Text x \<in> set ps \<Longrightarrow>
   Text x \<in> set ps0 \<or>
   (\<exists>m\<in>set ms. x = trim (m_text m) \<or> x = trim (m_text m) @ '' See image:'' \<or> x = ''See image:'')"
proof (induction ms arbitrary: ps0)
  case Nil
  then show ?case by simp
next
  case (Cons msg rest)
  obtain ps1 where r: "textModeParts rd rest ps1 = Inr ps"
    and s: "set ps1 \<subseteq> set ps0 \<union>
      {Text (trim (m_text msg)), Text (trim (m_text msg) @ '' See image:''), Text ''See image:''} \<union>
      range (\<lambda>(d, mt). InlineData d mt)"
  proof (cases "m_image msg")
    case None
    show ?thesis
    proof (cases "trim (m_text msg) = []")
      case True
      with None Cons.prems(1) show ?thesis by (intro that[of ps0]) auto
    next
      case False
      with None Cons.prems(1) show ?thesis
        by (intro that[of "ps0 @ [Text (trim (m_text msg))]"]) auto
    qed
  next
    case (Some img)
    from Some Cons.prems(1) obtain d where d: "blobToBase64 rd (img_blob img) = Inr d"
      by (auto simp: Let_def split: sum.splits)
    let ?t = "if trim (m_text msg) \<noteq> [] then trim (m_text msg) @ '' See image:'' else ''See image:''"
    from Some d Cons.prems(1) show ?thesis
      by (intro that[of "ps0 @ [Text ?t, InlineData d (img_mimeType img)]"])
         (auto simp: Let_def split: if_splits)
  qed
  from Cons.IH[OF r Cons.prems(2)] s show ?case by auto
qed

text \<open>
  Claim C8.  For a valid request with a non-empty system instruction (the trimmed system
  text), whenever the parts of the message items can be built: the request the image
  flow submits has no system field in its configuration and one user turn whose first
  part is the text part with the system instruction, followed by the parts of the message
  items; the request the text flow submits has the system instruction as the system field
  of its configuration and one user turn with exactly the parts of the message items.
  Those parts are built from the message list alone, and each text part among them is the
  text emitted for a message item, so the system instruction is not put into the user
  turn.
\<close>

theorem system_instruction_placement:
  "valid_request s \<and> trim (systemMessage s) \<noteq> [] \<longrightarrow>
     (imageModeParts rd (messages s) [] = Inr ps \<longrightarrow>
        requests (snd (handleGenerateImage rd G s)) = requests s @
          [\<lparr>r_model = MODEL,
            r_config = \<lparr>responseModalities = [''IMAGE''], systemInstruction = None\<rparr>,
            r_contents = [\<lparr>c_role = ''user'',
                           c_parts = Text (trim (systemMessage s)) # ps\<rparr>]\<rparr>]) \<and>
     (textModeParts rd (messages s) [] = Inr ps' \<longrightarrow>
        requests (snd (handleGenerateText rd G s)) = requests s @
          [\<lparr>r_model = TEXT_MODEL,
            r_config = \<lparr>responseModalities = [''TEXT''],
                        systemInstruction = Some (trim (systemMessage s))\<rparr>,
            r_contents = [\<lparr>c_role = ''user'', c_parts = ps'\<rparr>]\<rparr>] \<and>
        (\<forall>x. Text x \<in> set ps' \<longrightarrow>
           (\<exists>m\<in>set (messages s).
               x = trim (m_text m) \<or> x = trim (m_text m) @ '' See image:'' \<or>
               x = ''See image:'')))"
  using textModeParts_texts [of rd "messages s" "[]" ps']
  by (auto simp add: requests_handleGenerateImage requests_handleGenerateText image_request_def
      text_request_def trim_idem)

theorem system_instruction_placement_witness:
  "valid_request briefed \<and> trim (systemMessage briefed) = ''be brief'' \<and>
   imageModeParts reader (messages briefed) [] = Inr [] \<and>
   textModeParts reader (messages briefed) [] = Inr [] \<and>
   requests (snd (handleGenerateImage reader no_chunks briefed)) =
     [\<lparr>r_model = MODEL,
       r_config = \<lparr>responseModalities = [''IMAGE''], systemInstruction = None\<rparr>,
       r_contents = [\<lparr>c_role = ''user'', c_parts = [Text ''be brief'']\<rparr>]\<rparr>] \<and>
   requests (snd (handleGenerateText reader no_chunks briefed)) =
     [\<lparr>r_model = TEXT_MODEL,
       r_config = \<lparr>responseModalities = [''TEXT''], systemInstruction = Some ''be brief''\<rparr>,
       r_contents = [\<lparr>c_role = ''user'', c_parts = []\<rparr>]\<rparr>]"
proof -
  have v: "valid_request briefed"
    by code_simp
  have t: "trim (systemMessage briefed) = ''be brief''"
    by code_simp
  have m: "messages briefed = []" "requests briefed = []"
    by (simp_all add: briefed_def init_def)
  from system_instruction_placement [of briefed reader "[]" no_chunks "[]"] v t m
  show ?thesis by simp
qed

text \<open>The output lists drawn by the flows.\<close>

lemma consumeText_running:
  assumes "outputs s = out # rest" "o_id out = oid"
  shows "rendered_outputs (snd (consumeText oid cs [] s)) =
           rendered_outputs s @ map (\<lambda>t. finalized None t out # rest) (running cs)"
    and "outputs (snd (consumeText oid cs [] s)) =
           (if cs = [] then out else finalized None (concat (deltas cs)) out) # rest"
  using consumeText_head[OF assms, of cs "[]"] by (simp_all add: running_def comp_def)

lemma last_running: "cs \<noteq> [] \<Longrightarrow> last (running cs) = concat (deltas cs)"
  by (cases cs) (simp_all add: running_def deltas_def last_map)

lemma renders_of_snoc:
  "renders_of b s (ups @ [(u, t)]) =
     renders_of b s ups @ [finalized u t (created b s) # outputs s]"
  by (simp add: renders_of_def)

lemma renders_of_last:
  "\<exists>out. last (renders_of b s ups) = out # outputs s \<and>
         o_id out = String_of (nextOutputId s) \<and>
         finalized u t out = finalized u t (created b s) \<and>
         (ups = [] \<longrightarrow> out = created b s) \<and>
         (ups \<noteq> [] \<longrightarrow> \<not> o_loading out)"
  by (cases ups rule: rev_cases) (simp_all add: renders_of_def)

lemma drawn_created: "drawn b s (snd (addOutput b s)) []"
  by (simp add: drawn_def renders_of_def)

lemma drawn_requests: "drawn b s s1 ups \<Longrightarrow> drawn b s (s1\<lparr>requests := r\<rparr>) ups"
  by (simp add: drawn_def)

lemma drawn_update:
  assumes "drawn b s s1 ups"
  shows "drawn b s (updateOutput (String_of (nextOutputId s)) u t s1) (ups @ [(u, t)])"
proof -
  from renders_of_last[of b s ups u t] obtain out where
    l: "last (renders_of b s ups) = out # outputs s"
    and i: "o_id out = String_of (nextOutputId s)"
    and f: "finalized u t out = finalized u t (created b s)"
    by blast
  from assms l have o: "outputs s1 = out # outputs s"
    by (simp add: drawn_def)
  from assms show ?thesis
    by (simp add: drawn_def updateOutput_head[OF o i] f renders_of_snoc)
qed

lemma drawn_consume:
  assumes "drawn b s s1 []"
  shows "drawn b s (snd (consumeText (String_of (nextOutputId s)) cs [] s1))
           (map (Pair None) (running cs))"
proof -
  from assms have o: "outputs s1 = created b s # outputs s"
    and r: "rendered_outputs s1 = rendered_outputs s @ [created b s # outputs s]"
    by (simp_all add: drawn_def renders_of_def)
  have i: "o_id (created b s) = String_of (nextOutputId s)"
    by simp
  note c = consumeText_running[OF o i, of cs]
  show ?thesis
  proof (cases "cs = []")
    case True
    with assms show ?thesis by (simp add: running_def)
  next
    case False
    then have "running cs \<noteq> []"
      by (cases cs) (simp_all add: running_def)
    with c r False last_running[OF False] show ?thesis
      by (simp add: drawn_def renders_of_def comp_def last_map)
  qed
qed

text \<open>The catch block, on a state a flow has left.\<close>

lemma drawn_caught_image:
  assumes v: "valid_request s"
    and g: "generateImageContent rd (G (trim (apiKeyInput s))) (trim (systemMessage s))
           (String_of (nextOutputId s)) (snd (addOutput True s)) = (Some e, s2)"
    and d: "drawn True s s2 ups"
  shows "drawn True s (snd (handleGenerateImage rd G s))
           (ups @ map (Pair (Some PLACEHOLDER_IMAGE)) (caught e))"
    and "fst (handleGenerateImage rd G s) = rejection e"
proof -
  show "drawn True s (snd (handleGenerateImage rd G s))
           (ups @ map (Pair (Some PLACEHOLDER_IMAGE)) (caught e))"
    using d drawn_update[OF d, of "Some PLACEHOLDER_IMAGE"]
    by (cases e) (simp_all add: handleGenerateImage_caught[where G = G, OF v g] caught_def)
  show "fst (handleGenerateImage rd G s) = rejection e"
    by (cases e) (simp_all add: handleGenerateImage_caught[where G = G, OF v g] rejection_def)
qed

lemma drawn_caught_text:
  assumes v: "valid_request s"
    and g: "generateTextContent rd (G (trim (apiKeyInput s))) (trim (systemMessage s))
           (String_of (nextOutputId s)) (snd (addOutput False s)) = (Some e, s2)"
    and d: "drawn False s s2 ups"
  shows "drawn False s (snd (handleGenerateText rd G s)) (ups @ map (Pair None) (caught e))"
    and "fst (handleGenerateText rd G s) = rejection e"
proof -
  show "drawn False s (snd (handleGenerateText rd G s)) (ups @ map (Pair None) (caught e))"
    using d drawn_update[OF d, of None]
    by (cases e) (simp_all add: handleGenerateText_caught[where G = G, OF v g] caught_def)
  show "fst (handleGenerateText rd G s) = rejection e"
    by (cases e) (simp_all add: handleGenerateText_caught[where G = G, OF v g] rejection_def)
qed

text \<open>Text flow, at the entry operation: a failure before the stream, and a stream.\<close>

lemma handleGenerateText_failed_early:
  assumes v: "valid_request s"
    and e: "textModeParts rd (messages s) [] = Inl e \<or>
            (\<exists>ps. textModeParts rd (messages s) [] = Inr ps \<and>
                  G (trim (apiKeyInput s)) (text_request (trim (systemMessage s)) ps) = Inl e)"
  shows "drawn False s (snd (handleGenerateText rd G s)) (map (Pair None) (caught e))"
    and "fst (handleGenerateText rd G s) = rejection e"
proof -
  let ?s1 = "snd (addOutput False s)"
  let ?key = "trim (apiKeyInput s)" and ?sys = "trim (systemMessage s)"
  from e obtain s2 where
    g: "generateTextContent rd (G ?key) ?sys (String_of (nextOutputId s)) ?s1 = (Some e, s2)"
    and d: "drawn False s s2 []"
  proof (elim disjE exE conjE)
    assume a: "textModeParts rd (messages s) [] = Inl e"
    show thesis
      by (rule that[of ?s1]) (simp_all add: generateTextContent_unreadable a drawn_created)
  next
    fix ps assume a: "textModeParts rd (messages s) [] = Inr ps"
      and b: "G ?key (text_request ?sys ps) = Inl e"
    show thesis
      by (rule that[of "?s1\<lparr>requests := requests ?s1 @ [text_request ?sys ps]\<rparr>"])
         (simp_all add: generateTextContent_refused[where s = ?s1 and rd = rd
              and ai = "G ?key" and systemMsg = ?sys, simplified, OF a b]
            drawn_requests[OF drawn_created, simplified])
  qed
  from drawn_caught_text[where G = G, OF v g d]
  show "drawn False s (snd (handleGenerateText rd G s)) (map (Pair None) (caught e))"
    and "fst (handleGenerateText rd G s) = rejection e"
    by simp_all
qed

lemma handleGenerateText_streamed:
  assumes v: "valid_request s"
    and p: "textModeParts rd (messages s) [] = Inr ps"
    and g: "G (trim (apiKeyInput s)) (text_request (trim (systemMessage s)) ps) = Inr response"
  shows "drawn False s (snd (handleGenerateText rd G s))
           (map (Pair None)
              (running (rs_chunks response) @
               (case rs_error response of
                  None \<Rightarrow>
                    [or_else (Some (concat (deltas (rs_chunks response))))
                       ''Text generation complete, but no text was returned.'']
                | Some e \<Rightarrow> caught e)))"
    and "fst (handleGenerateText rd G s) =
           (case rs_error response of None \<Rightarrow> None | Some e \<Rightarrow> rejection e)"
proof -
  let ?oid = "String_of (nextOutputId s)"
  let ?s1 = "snd (addOutput False s)"
  let ?key = "trim (apiKeyInput s)" and ?sys = "trim (systemMessage s)"
  let ?s1r = "?s1\<lparr>requests := requests ?s1 @ [text_request ?sys ps]\<rparr>"
  let ?s2 = "snd (consumeText ?oid (rs_chunks response) [] ?s1r)"
  let ?final = "or_else (Some (concat (deltas (rs_chunks response))))
                       ''Text generation complete, but no text was returned.''"
  have d2: "drawn False s ?s2 (map (Pair None) (running (rs_chunks response)))"
    by (rule drawn_consume[OF drawn_requests[OF drawn_created]])
  note gen = generateTextContent_streamed[where s = ?s1 and rd = rd
          and ai = "G ?key" and systemMsg = ?sys and oid = ?oid, simplified, OF p g]
  show "drawn False s (snd (handleGenerateText rd G s))
           (map (Pair None)
              (running (rs_chunks response) @
               (case rs_error response of
                  None \<Rightarrow> [?final]
                | Some e \<Rightarrow> caught e)))"
  proof (cases "rs_error response")
    case None
    with gen have "handleGenerateText rd G s = (None, updateOutput ?oid None ?final ?s2)"
      by (simp add: handleGenerateText_valid[OF v] Let_def)
    with drawn_update[OF d2, of None ?final] None show ?thesis by simp
  next
    case (Some e)
    with gen have "generateTextContent rd (G ?key) ?sys ?oid ?s1 = (Some e, ?s2)"
      by (simp add: Let_def)
    from drawn_caught_text(1)[where G = G, OF v this d2] Some show ?thesis by simp
  qed
  show "fst (handleGenerateText rd G s) =
           (case rs_error response of None \<Rightarrow> None | Some e \<Rightarrow> rejection e)"
  proof (cases "rs_error response")
    case None
    with gen show ?thesis
      by (simp add: handleGenerateText_valid[OF v] Let_def)
  next
    case (Some e)
    with gen have "generateTextContent rd (G ?key) ?sys ?oid ?s1 = (Some e, ?s2)"
      by (simp add: Let_def)
    from drawn_caught_text(2)[where G = G, OF v this d2] Some show ?thesis by simp
  qed
qed

text \<open>Image flow, at the entry operation: a failure, and a stream that completes.\<close>

lemma handleGenerateImage_failed:
  assumes v: "valid_request s"
    and e: "imageModeParts rd (messages s) [] = Inl e \<or>
            (\<exists>ps. imageModeParts rd (messages s) [] = Inr ps \<and>
               (G (trim (apiKeyInput s)) (image_request (trim (systemMessage s)) ps) = Inl e \<or>
                (\<exists>response. G (trim (apiKeyInput s)) (image_request (trim (systemMessage s)) ps) = Inr response \<and>
                   rs_error response = Some e)))"
  shows "drawn True s (snd (handleGenerateImage rd G s))
           (map (Pair (Some PLACEHOLDER_IMAGE)) (caught e))"
    and "fst (handleGenerateImage rd G s) = rejection e"
proof -
  let ?s1 = "snd (addOutput True s)"
  let ?key = "trim (apiKeyInput s)" and ?sys = "trim (systemMessage s)"
  from e obtain s2 where
    g: "generateImageContent rd (G ?key) ?sys (String_of (nextOutputId s)) ?s1 = (Some e, s2)"
    and d: "drawn True s s2 []"
  proof (elim disjE exE conjE)
    assume a: "imageModeParts rd (messages s) [] = Inl e"
    show thesis
      by (rule that[of ?s1]) (simp_all add: generateImageContent_unreadable a drawn_created)
  next
    fix ps assume a: "imageModeParts rd (messages s) [] = Inr ps"
      and b: "G ?key (image_request ?sys ps) = Inl e"
    show thesis
      by (rule that[of "?s1\<lparr>requests := requests ?s1 @ [image_request ?sys ps]\<rparr>"])
         (simp_all add: generateImageContent_refused[where s = ?s1 and rd = rd
              and ai = "G ?key" and systemMsg = ?sys, simplified, OF a b]
            drawn_requests[OF drawn_created, simplified])
  next
    fix ps response assume a: "imageModeParts rd (messages s) [] = Inr ps"
      and b: "G ?key (image_request ?sys ps) = Inr response" and c: "rs_error response = Some e"
    show thesis
      by (rule that[of "?s1\<lparr>requests := requests ?s1 @ [image_request ?sys ps]\<rparr>"])
         (simp_all add: generateImageContent_streamed[where s = ?s1 and rd = rd
              and ai = "G ?key" and systemMsg = ?sys, simplified, OF a b] c
            drawn_requests[OF drawn_created, simplified])
  qed
  from drawn_caught_image[where G = G, OF v g d]
  show "drawn True s (snd (handleGenerateImage rd G s))
           (map (Pair (Some PLACEHOLDER_IMAGE)) (caught e))"
    and "fst (handleGenerateImage rd G s) = rejection e"
    by simp_all
qed

lemma handleGenerateImage_completed:
  assumes v: "valid_request s"
    and p: "imageModeParts rd (messages s) [] = Inr ps"
    and g: "G (trim (apiKeyInput s)) (image_request (trim (systemMessage s)) ps) = Inr response"
    and c: "rs_error response = None"
  defines "u \<equiv> (case produced_images (rs_chunks response) of
                   [] \<Rightarrow> PLACEHOLDER_IMAGE | finalImageUrl # _ \<Rightarrow> finalImageUrl)"
    and "t \<equiv> or_else (Some (accumulated_text (rs_chunks response)))
                (case produced_images (rs_chunks response) of
                   [] \<Rightarrow> ''Generation complete, but no image was returned.''
                 | _ # _ \<Rightarrow> ''Image successfully generated.'')"
  shows "drawn True s (snd (handleGenerateImage rd G s)) [(Some u, t)]"
    and "fst (handleGenerateImage rd G s) = None"
proof -
  let ?oid = "String_of (nextOutputId s)"
  let ?s1 = "snd (addOutput True s)"
  let ?s1r = "?s1\<lparr>requests := requests ?s1 @ [image_request (trim (systemMessage s)) ps]\<rparr>"
  have d: "drawn True s ?s1r []"
    by (rule drawn_requests[OF drawn_created])
  have h: "handleGenerateImage rd G s = (None, updateOutput ?oid (Some u) t ?s1r)"
    by (simp add: handleGenerateImage_valid[OF v]
        generateImageContent_streamed[where s = ?s1 and rd = rd
          and ai = "G (trim (apiKeyInput s))" and systemMsg = "trim (systemMessage s)",
          simplified, OF p g] c u_def t_def Let_def split: list.splits)
  from drawn_update[OF d, of "Some u" t] h
  show "drawn True s (snd (handleGenerateImage rd G s)) [(Some u, t)]"
    and "fst (handleGenerateImage rd G s) = None"
    by simp_all
qed

text \<open>The loading flag along the renders of a flow.\<close>

lemma clearings_settled: "clearings (replicate k (Some False)) = 0"
proof (induction k rule: less_induct)
  case (less k)
  show ?case
  proof (cases k)
    case 0
    then show ?thesis by simp
  next
    case (Suc j)
    show ?thesis
    proof (cases j)
      case 0
      with Suc show ?thesis by simp
    next
      case (Suc i)
      with \<open>k = Suc j\<close> less[of j] show ?thesis by simp
    qed
  qed
qed

lemma clearings_once: "clearings (Some True # replicate (Suc k) (Some False)) = 1"
  using clearings_settled[of "Suc k"] by simp

lemma loading_trace:
  assumes "o_id out = oid"
  shows "map (loading_of oid) ((out # rest) # map (\<lambda>x. finalized (fst x) (snd x) out # rest) uts) =
         Some (o_loading out) # replicate (length uts) (Some False)"
  using assms by (simp add: loading_of_def comp_def map_replicate_const)

lemma new_renders_append: "rendered_outputs s' = rendered_outputs s @ xs \<Longrightarrow> new_renders s s' = xs"
  by (simp add: new_renders_def)


lemma new_renders_drawn: "drawn b s s' ups \<Longrightarrow> new_renders s s' = renders_of b s ups"
  by (simp add: drawn_def new_renders_def)

lemma loading_renders_of:
  "map (loading_of (String_of (nextOutputId s))) (renders_of b s ups) =
     Some True # replicate (length ups) (Some False)"
  unfolding renders_of_def
  using loading_trace[of "created b s" "String_of (nextOutputId s)" "outputs s" ups]
  by simp

lemma drawn_clears_once:
  assumes d: "drawn b s s' ups" and n: "ups \<noteq> []"
  shows "clearings (map (loading_of (String_of (nextOutputId s))) (new_renders s s')) = 1 \<and>
         take 1 (map (loading_of (String_of (nextOutputId s))) (new_renders s s')) = [Some True] \<and>
         loading_of (String_of (nextOutputId s)) (outputs s') = Some False"
proof -
  from n obtain k where k: "length ups = Suc k"
    by (cases ups) auto
  from renders_of_last[of b s ups None "[]"] n d obtain out where
    o: "outputs s' = out # outputs s" "o_id out = String_of (nextOutputId s)" "\<not> o_loading out"
    by (auto simp: drawn_def)
  show ?thesis
    unfolding new_renders_drawn[OF d] loading_renders_of k
    using clearings_once[of k] o by (simp add: loading_of_def)
qed

lemma drawn_stays_loading:
  assumes d: "drawn b s s' []"
  shows "clearings (map (loading_of (String_of (nextOutputId s))) (new_renders s s')) = 0 \<and>
         loading_of (String_of (nextOutputId s)) (outputs s') = Some True"
  using d unfolding new_renders_drawn[OF d] loading_renders_of
  by (simp add: drawn_def renders_of_def loading_of_def)

lemma caught_or_rejected:
  "(rejection e = None \<longrightarrow> caught e \<noteq> []) \<and> (rejection e = None \<or> rejection e = Some TypeError)"
  by (cases e) (simp_all add: caught_def rejection_def)

text \<open>Every run of an entry operation on a valid request creates its output and updates it
  some number of times; unless the operation ends with the \<open>TypeError\<close>, there is at least one
  update.\<close>

lemma image_flow_cases:
  assumes "valid_request s"
  shows "\<exists>ups. drawn True s (snd (handleGenerateImage rd G s)) ups \<and>
           (fst (handleGenerateImage rd G s) = None \<longrightarrow> ups \<noteq> []) \<and>
           (fst (handleGenerateImage rd G s) = None \<or>
            fst (handleGenerateImage rd G s) = Some TypeError)"
proof -
  have failed: ?thesis
    if "drawn True s (snd (handleGenerateImage rd G s))
          (map (Pair (Some PLACEHOLDER_IMAGE)) (caught e))"
      and "fst (handleGenerateImage rd G s) = rejection e" for e
    using that caught_or_rejected[of e] by (intro exI[of _ "map (Pair (Some PLACEHOLDER_IMAGE)) (caught e)"]) auto
  show ?thesis
  proof (cases "imageModeParts rd (messages s) []")
    case (Inl e)
    then show ?thesis
      by (intro failed[of e] handleGenerateImage_failed[where G = G and rd = rd, OF assms]) simp_all
  next
    case (Inr ps)
    show ?thesis
    proof (cases "G (trim (apiKeyInput s)) (image_request (trim (systemMessage s)) ps)")
      case (Inl e)
      with Inr show ?thesis
        by (intro failed[of e] handleGenerateImage_failed[where G = G and rd = rd, OF assms]) simp_all
    next
      case r: (Inr response)
      show ?thesis
      proof (cases "rs_error response")
        case None
        from handleGenerateImage_completed[where G = G and rd = rd, OF assms Inr r None]
        show ?thesis by blast
      next
        case (Some e)
        with Inr r show ?thesis
          by (intro failed[of e] handleGenerateImage_failed[where G = G and rd = rd, OF assms])
             simp_all
      qed
    qed
  qed
qed

lemma text_flow_cases:
  assumes "valid_request s"
  shows "\<exists>ups. drawn False s (snd (handleGenerateText rd G s)) ups \<and>
           (fst (handleGenerateText rd G s) = None \<longrightarrow> ups \<noteq> []) \<and>
           (fst (handleGenerateText rd G s) = None \<or>
            fst (handleGenerateText rd G s) = Some TypeError)"
proof (cases "textModeParts rd (messages s) []")
  case (Inl e)
  with handleGenerateText_failed_early[where G = G and rd = rd and e = e, OF assms]
    caught_or_rejected[of e]
  show ?thesis
    by (intro exI[of _ "map (Pair None) (caught e)"]) auto
next
  case (Inr ps)
  show ?thesis
  proof (cases "G (trim (apiKeyInput s)) (text_request (trim (systemMessage s)) ps)")
    case (Inl e)
    with Inr handleGenerateText_failed_early[where G = G and rd = rd and e = e, OF assms]
      caught_or_rejected[of e]
    show ?thesis
      by (intro exI[of _ "map (Pair None) (caught e)"]) auto
  next
    case r: (Inr response)
    note h = handleGenerateText_streamed[where G = G and rd = rd, OF assms Inr r]
    show ?thesis
    proof (cases "rs_error response")
      case None
      with h show ?thesis
        by (intro exI[of _ "map (Pair None) (running (rs_chunks response) @
              [or_else (Some (concat (deltas (rs_chunks response))))
                 ''Text generation complete, but no text was returned.''])"]) simp
    next
      case (Some e)
      with h caught_or_rejected[of e] show ?thesis
        by (intro exI[of _ "map (Pair None) (running (rs_chunks response) @ caught e)"]) auto
    qed
  qed
qed

text \<open>Whenever an entry operation ends without the \<open>TypeError\<close>, its output was loading when
  created, its \<open>loading\<close> flag went from true to false at exactly one step, and it is not
  loading afterwards.\<close>

lemma loading_cleared_once_unless_rejected:
  assumes v: "valid_request s"
  shows "fst (handleGenerateImage rd G s) = None \<Longrightarrow>
         clearings (map (loading_of (String_of (nextOutputId s)))
           (new_renders s (snd (handleGenerateImage rd G s)))) = 1 \<and>
         take 1 (map (loading_of (String_of (nextOutputId s)))
           (new_renders s (snd (handleGenerateImage rd G s)))) = [Some True] \<and>
         loading_of (String_of (nextOutputId s)) (outputs (snd (handleGenerateImage rd G s))) =
           Some False"
    and "fst (handleGenerateText rd G s) = None \<Longrightarrow>
         clearings (map (loading_of (String_of (nextOutputId s)))
           (new_renders s (snd (handleGenerateText rd G s)))) = 1 \<and>
         take 1 (map (loading_of (String_of (nextOutputId s)))
           (new_renders s (snd (handleGenerateText rd G s)))) = [Some True] \<and>
         loading_of (String_of (nextOutputId s)) (outputs (snd (handleGenerateText rd G s))) =
           Some False"
proof -
  assume "fst (handleGenerateImage rd G s) = None"
  with image_flow_cases[OF v, of rd G] obtain ups where
    "drawn True s (snd (handleGenerateImage rd G s)) ups" "ups \<noteq> []"
    by blast
  then show "clearings (map (loading_of (String_of (nextOutputId s)))
           (new_renders s (snd (handleGenerateImage rd G s)))) = 1 \<and>
         take 1 (map (loading_of (String_of (nextOutputId s)))
           (new_renders s (snd (handleGenerateImage rd G s)))) = [Some True] \<and>
         loading_of (String_of (nextOutputId s)) (outputs (snd (handleGenerateImage rd G s))) =
           Some False"
    by (rule drawn_clears_once)
next
  assume "fst (handleGenerateText rd G s) = None"
  with text_flow_cases[OF v, of rd G] obtain ups where
    "drawn False s (snd (handleGenerateText rd G s)) ups" "ups \<noteq> []"
    by blast
  then show "clearings (map (loading_of (String_of (nextOutputId s)))
           (new_renders s (snd (handleGenerateText rd G s)))) = 1 \<and>
         take 1 (map (loading_of (String_of (nextOutputId s)))
           (new_renders s (snd (handleGenerateText rd G s)))) = [Some True] \<and>
         loading_of (String_of (nextOutputId s)) (outputs (snd (handleGenerateText rd G s))) =
           Some False"
    by (rule drawn_clears_once)
qed

text \<open>An entry operation ends with the \<open>TypeError\<close> only when \<open>null\<close> or \<open>undefined\<close> was
  thrown: by the file reader, by the request, or by the stream.\<close>

lemma imageModeParts_error:
  "imageModeParts rd ms ps = Inl e \<Longrightarrow> \<exists>b. rd b = Inl e"
  by (induction rd ms ps rule: imageModeParts.induct)
     (auto simp: Let_def blobToBase64_def split: if_splits option.splits sum.splits)

lemma textModeParts_error:
  "textModeParts rd ms ps = Inl e \<Longrightarrow> \<exists>b. rd b = Inl e"
  by (induction rd ms ps rule: textModeParts.induct)
     (auto simp: Let_def blobToBase64_def split: if_splits option.splits sum.splits)

lemma not_rejected_without_nullish:
  assumes v: "valid_request s"
    and rd: "\<And>b. rd b \<noteq> Inl Nullish"
    and rq: "\<And>req. G (trim (apiKeyInput s)) req \<noteq> Inl Nullish"
    and st: "\<And>req response. G (trim (apiKeyInput s)) req = Inr response \<Longrightarrow>
               rs_error response \<noteq> Some Nullish"
  shows "fst (handleGenerateImage rd G s) = None" and "fst (handleGenerateText rd G s) = None"
proof -
  have r: "rejection e = None" if "e \<noteq> Nullish" for e
    using that by (cases e) (simp_all add: rejection_def)
  show "fst (handleGenerateImage rd G s) = None"
  proof (cases "imageModeParts rd (messages s) []")
    case (Inl e)
    with imageModeParts_error[OF Inl] rd have "e \<noteq> Nullish" by auto
    with handleGenerateImage_failed(2)[where G = G and rd = rd and e = e, OF v] Inl r
    show ?thesis by simp
  next
    case (Inr ps)
    show ?thesis
    proof (cases "G (trim (apiKeyInput s)) (image_request (trim (systemMessage s)) ps)")
      case (Inl e)
      with rq[of "image_request (trim (systemMessage s)) ps"] have "e \<noteq> Nullish" by auto
      with handleGenerateImage_failed(2)[where G = G and rd = rd and e = e, OF v] Inl Inr r
      show ?thesis by simp
    next
      case g: (Inr response)
      show ?thesis
      proof (cases "rs_error response")
        case None
        from handleGenerateImage_completed(2)[where G = G and rd = rd, OF v Inr g None]
        show ?thesis .
      next
        case (Some e)
        with st[OF g] have "e \<noteq> Nullish" by auto
        with handleGenerateImage_failed(2)[where G = G and rd = rd and e = e, OF v] Inr g Some r
        show ?thesis by auto
      qed
    qed
  qed
  show "fst (handleGenerateText rd G s) = None"
  proof (cases "textModeParts rd (messages s) []")
    case (Inl e)
    with textModeParts_error[OF Inl] rd have "e \<noteq> Nullish" by auto
    with handleGenerateText_failed_early(2)[where G = G and rd = rd and e = e, OF v] Inl r
    show ?thesis by simp
  next
    case (Inr ps)
    show ?thesis
    proof (cases "G (trim (apiKeyInput s)) (text_request (trim (systemMessage s)) ps)")
      case (Inl e)
      with rq[of "text_request (trim (systemMessage s)) ps"] have "e \<noteq> Nullish" by auto
      with handleGenerateText_failed_early(2)[where G = G and rd = rd and e = e, OF v] Inl Inr r
      show ?thesis by simp
    next
      case g: (Inr response)
      show ?thesis
      proof (cases "rs_error response")
        case None
        with handleGenerateText_streamed(2)[where G = G and rd = rd, OF v Inr g]
        show ?thesis by simp
      next
        case (Some e)
        with st[OF g] have "e \<noteq> Nullish" by auto
        with handleGenerateText_streamed(2)[where G = G and rd = rd, OF v Inr g] Some r
        show ?thesis by simp
      qed
    qed
  qed
qed

text \<open>
  Claim C5 does not hold as stated: a request that passes the validation is not always
  submitted.  With a credential and a message item whose image cannot be read, both entry
  operations submit nothing.
\<close>

theorem valid_request_not_submitted:
  "trim (apiKeyInput keyed) \<noteq> [] \<and> messages keyed \<noteq> [] \<and>
   requests (snd (handleGenerateImage unreadable no_chunks keyed)) = [] \<and>
   requests (snd (handleGenerateText unreadable no_chunks keyed)) = []"
  by code_simp

text \<open>
  Claim C5, amended.  For both entry operations, with the credential and the system text
  as trimmed by the operation: when the credential is empty, or the system text and the
  message list are both empty, the operation only shows a validation alert, creating no
  output and submitting no request.  Otherwise it shows no alert and puts one new output
  in front of the output list; it submits exactly one request when the parts of the
  message items can be built, and none when reading an attached image fails.
\<close>

theorem validation_gates_generation:
  "(\<not> valid_request s \<longrightarrow>
      outputs (snd (handleGenerateImage rd G s)) = outputs s \<and>
      requests (snd (handleGenerateImage rd G s)) = requests s \<and>
      alerts (snd (handleGenerateImage rd G s)) =
        alerts s @ [if trim (apiKeyInput s) = [] then ''Please provide an API Key.''
                    else ''Please provide either a system message or at least one message item.''] \<and>
      outputs (snd (handleGenerateText rd G s)) = outputs s \<and>
      requests (snd (handleGenerateText rd G s)) = requests s \<and>
      alerts (snd (handleGenerateText rd G s)) =
        alerts s @ [if trim (apiKeyInput s) = [] then ''Please provide an API Key.''
                    else ''Please provide either a system message or at least one message item.'']) \<and>
   (valid_request s \<longrightarrow>
      (\<exists>out. outputs (snd (handleGenerateImage rd G s)) = out # outputs s \<and>
             o_id out = String_of (nextOutputId s)) \<and>
      alerts (snd (handleGenerateImage rd G s)) = alerts s \<and>
      requests (snd (handleGenerateImage rd G s)) =
        (case imageModeParts rd (messages s) [] of
           Inl e \<Rightarrow> requests s
         | Inr ps \<Rightarrow> requests s @ [image_request (trim (systemMessage s)) ps]) \<and>
      (\<exists>out. outputs (snd (handleGenerateText rd G s)) = out # outputs s \<and>
             o_id out = String_of (nextOutputId s)) \<and>
      alerts (snd (handleGenerateText rd G s)) = alerts s \<and>
      requests (snd (handleGenerateText rd G s)) =
        (case textModeParts rd (messages s) [] of
           Inl e \<Rightarrow> requests s
         | Inr ps \<Rightarrow> requests s @ [text_request (trim (systemMessage s)) ps]))"
proof (intro conjI impI)
  assume v: "valid_request s"
  from image_flow_cases[OF v, of rd G] obtain ups where
    "outputs (snd (handleGenerateImage rd G s)) = last (renders_of True s ups)"
    by (auto simp: drawn_def)
  with renders_of_last[of True s ups None "[]"]
  show "\<exists>out. outputs (snd (handleGenerateImage rd G s)) = out # outputs s \<and>
             o_id out = String_of (nextOutputId s)"
    by auto
  from text_flow_cases[OF v, of rd G] obtain ups' where
    "outputs (snd (handleGenerateText rd G s)) = last (renders_of False s ups')"
    by (auto simp: drawn_def)
  with renders_of_last[of False s ups' None "[]"]
  show "\<exists>out. outputs (snd (handleGenerateText rd G s)) = out # outputs s \<and>
             o_id out = String_of (nextOutputId s)"
    by auto
qed (simp_all add: handleGenerateImage_invalid handleGenerateText_invalid alert_def
      alerts_handle requests_handleGenerateImage requests_handleGenerateText)

theorem validation_gates_generation_witness:
  "\<not> valid_request init \<and> valid_request keyed \<and>
   outputs (snd (handleGenerateImage reader one_image init)) = outputs init \<and>
   requests (snd (handleGenerateImage reader one_image init)) = requests init \<and>
   alerts (snd (handleGenerateImage reader one_image init)) =
     alerts init @ [''Please provide an API Key.''] \<and>
   alerts (snd (handleGenerateImage reader one_image keyed)) = alerts keyed \<and>
   requests (snd (handleGenerateImage reader one_image keyed)) =
     requests keyed @
       [image_request (trim (systemMessage keyed))
          [Text (''hi'' @ CHR 0x0A # ''See image:''), InlineData (Some ''QUJD'') ''image/png'']] \<and>
   requests (snd (handleGenerateImage unreadable one_image keyed)) = requests keyed"
proof -
  have a: "\<not> valid_request init"
    by code_simp
  have b: "valid_request keyed"
    by code_simp
  have c: "trim (apiKeyInput init) = []"
    by code_simp
  have d: "imageModeParts reader (messages keyed) [] =
      Inr [Text (''hi'' @ CHR 0x0A # ''See image:''), InlineData (Some ''QUJD'') ''image/png'']"
    by code_simp
  have e: "imageModeParts unreadable (messages keyed) [] = Inl (Error None)"
    by code_simp
  from validation_gates_generation [of init reader one_image]
    validation_gates_generation [of keyed reader one_image]
    validation_gates_generation [of keyed unreadable one_image] a b c d e
  show ?thesis by simp
qed

text \<open>
  Claim C6.  For a valid request whose parts can be built and whose image stream
  completes: the output list is drawn exactly twice during the operation, once with the
  created loading output and once with the final output, so the output is not changed
  before the stream ends.  The final output is not loading; its image is the first image
  the stream produced, or the placeholder when it produced none; its text is the
  accumulated text of the stream, or, when that is empty, \<open>Image successfully
  generated.\<close> if an image was produced and \<open>Generation complete, but no image was
  returned.\<close> if none was.
\<close>

theorem image_stream_finalizes_once:
  "valid_request s \<and> imageModeParts rd (messages s) [] = Inr ps \<and>
   G (trim (apiKeyInput s)) (image_request (trim (systemMessage s)) ps) =
     Inr \<lparr>rs_chunks = cs, rs_error = None\<rparr> \<longrightarrow>
     new_renders s (snd (handleGenerateImage rd G s)) =
       [created True s # outputs s,
        \<lparr>o_id = String_of (nextOutputId s),
         o_imageUrl = Some (case produced_images cs of
                              [] \<Rightarrow> PLACEHOLDER_IMAGE | firstImage # _ \<Rightarrow> firstImage),
         o_text = (if accumulated_text cs \<noteq> [] then accumulated_text cs
                   else case produced_images cs of
                          [] \<Rightarrow> ''Generation complete, but no image was returned.''
                        | _ # _ \<Rightarrow> ''Image successfully generated.''),
         o_loading = False\<rparr> # outputs s] \<and>
     outputs (snd (handleGenerateImage rd G s)) =
       \<lparr>o_id = String_of (nextOutputId s),
        o_imageUrl = Some (case produced_images cs of
                             [] \<Rightarrow> PLACEHOLDER_IMAGE | firstImage # _ \<Rightarrow> firstImage),
        o_text = (if accumulated_text cs \<noteq> [] then accumulated_text cs
                  else case produced_images cs of
                         [] \<Rightarrow> ''Generation complete, but no image was returned.''
                       | _ # _ \<Rightarrow> ''Image successfully generated.''),
        o_loading = False\<rparr> # outputs s"
proof (intro impI, elim conjE)
  assume v: "valid_request s" and p: "imageModeParts rd (messages s) [] = Inr ps"
    and g: "G (trim (apiKeyInput s)) (image_request (trim (systemMessage s)) ps) =
      Inr \<lparr>rs_chunks = cs, rs_error = None\<rparr>"
  note c = handleGenerateImage_completed(1) [where G = G and rd = rd, OF v p g, simplified]
  from c have o: "outputs (snd (handleGenerateImage rd G s)) =
      last (new_renders s (snd (handleGenerateImage rd G s)))"
    by (simp add: new_renders_drawn[OF c] drawn_def)
  have n: "new_renders s (snd (handleGenerateImage rd G s)) =
       [created True s # outputs s,
        \<lparr>o_id = String_of (nextOutputId s),
         o_imageUrl = Some (case produced_images cs of
                              [] \<Rightarrow> PLACEHOLDER_IMAGE | firstImage # _ \<Rightarrow> firstImage),
         o_text = (if accumulated_text cs \<noteq> [] then accumulated_text cs
                   else case produced_images cs of
                          [] \<Rightarrow> ''Generation complete, but no image was returned.''
                        | _ # _ \<Rightarrow> ''Image successfully generated.''),
         o_loading = False\<rparr> # outputs s]"
    unfolding new_renders_drawn[OF c]
    by (simp add: renders_of_def finalized_def created_def or_else_def)
  from n o show "new_renders s (snd (handleGenerateImage rd G s)) =
       [created True s # outputs s,
        \<lparr>o_id = String_of (nextOutputId s),
         o_imageUrl = Some (case produced_images cs of
                              [] \<Rightarrow> PLACEHOLDER_IMAGE | firstImage # _ \<Rightarrow> firstImage),
         o_text = (if accumulated_text cs \<noteq> [] then accumulated_text cs
                   else case produced_images cs of
                          [] \<Rightarrow> ''Generation complete, but no image was returned.''
                        | _ # _ \<Rightarrow> ''Image successfully generated.''),
         o_loading = False\<rparr> # outputs s] \<and>
     outputs (snd (handleGenerateImage rd G s)) =
       \<lparr>o_id = String_of (nextOutputId s),
        o_imageUrl = Some (case produced_images cs of
                             [] \<Rightarrow> PLACEHOLDER_IMAGE | firstImage # _ \<Rightarrow> firstImage),
        o_text = (if accumulated_text cs \<noteq> [] then accumulated_text cs
                  else case produced_images cs of
                         [] \<Rightarrow> ''Generation complete, but no image was returned.''
                       | _ # _ \<Rightarrow> ''Image successfully generated.''),
        o_loading = False\<rparr> # outputs s"
    by simp
qed

theorem image_stream_finalizes_once_witness:
  "valid_request keyed \<and>
   new_renders keyed (snd (handleGenerateImage reader one_image keyed)) =
     [[\<lparr>o_id = ''1'', o_imageUrl = Some PLACEHOLDER_IMAGE, o_text = ''Generating...'',
        o_loading = True\<rparr>],
      [\<lparr>o_id = ''1'', o_imageUrl = Some ''data:image/png;base64,QUJD'', o_text = ''a cat'',
        o_loading = False\<rparr>]] \<and>
   new_renders keyed (snd (handleGenerateImage reader no_chunks keyed)) =
     [[\<lparr>o_id = ''1'', o_imageUrl = Some PLACEHOLDER_IMAGE, o_text = ''Generating...'',
        o_loading = True\<rparr>],
      [\<lparr>o_id = ''1'', o_imageUrl = Some PLACEHOLDER_IMAGE,
        o_text = ''Generation complete, but no image was returned.'', o_loading = False\<rparr>]]"
proof -
  have v: "valid_request keyed"
    by code_simp
  have p: "imageModeParts reader (messages keyed) [] =
      Inr [Text (''hi'' @ CHR 0x0A # ''See image:''), InlineData (Some ''QUJD'') ''image/png'']"
    by code_simp
  have g1: "one_image (trim (apiKeyInput keyed)) (image_request (trim (systemMessage keyed))
        [Text (''hi'' @ CHR 0x0A # ''See image:''), InlineData (Some ''QUJD'') ''image/png'']) =
      Inr \<lparr>rs_chunks =
            [\<lparr>chunk_parts = Some [\<lparr>rp_inlineData = None, rp_text = Some ''a cat''\<rparr>,
                                  \<lparr>rp_inlineData = Some (Some ''image/png'', Some ''QUJD''),
                                   rp_text = None\<rparr>],
              chunk_text = Some ''a cat''\<rparr>],
          rs_error = None\<rparr>"
    by (simp add: one_image_def)
  have g2: "no_chunks (trim (apiKeyInput keyed)) (image_request (trim (systemMessage keyed))
        [Text (''hi'' @ CHR 0x0A # ''See image:''), InlineData (Some ''QUJD'') ''image/png'']) =
      Inr \<lparr>rs_chunks = [], rs_error = None\<rparr>"
    by (simp add: no_chunks_def)
  have e1: "produced_images
            [\<lparr>chunk_parts = Some [\<lparr>rp_inlineData = None, rp_text = Some ''a cat''\<rparr>,
                                  \<lparr>rp_inlineData = Some (Some ''image/png'', Some ''QUJD''),
                                   rp_text = None\<rparr>],
              chunk_text = Some ''a cat''\<rparr>] = [''data:image/png;base64,QUJD'']"
    by code_simp
  have e2: "accumulated_text
            [\<lparr>chunk_parts = Some [\<lparr>rp_inlineData = None, rp_text = Some ''a cat''\<rparr>,
                                  \<lparr>rp_inlineData = Some (Some ''image/png'', Some ''QUJD''),
                                   rp_text = None\<rparr>],
              chunk_text = Some ''a cat''\<rparr>] = ''a cat''"
    by code_simp
  have e3: "produced_images [] = []" "accumulated_text [] = []"
    by (simp_all add: produced_images_def accumulated_text_def stream_parts_def)
  have k: "created True keyed =
      \<lparr>o_id = ''1'', o_imageUrl = Some PLACEHOLDER_IMAGE, o_text = ''Generating...'',
       o_loading = True\<rparr>" "outputs keyed = []" "String_of (nextOutputId keyed) = ''1''"
    by code_simp+
  from image_stream_finalizes_once
      [where s = keyed and rd = reader and G = one_image
         and ps = "[Text (''hi'' @ CHR 0x0A # ''See image:''), InlineData (Some ''QUJD'') ''image/png'']"
         and cs = "[\<lparr>chunk_parts = Some [\<lparr>rp_inlineData = None, rp_text = Some ''a cat''\<rparr>,
                                  \<lparr>rp_inlineData = Some (Some ''image/png'', Some ''QUJD''),
                                   rp_text = None\<rparr>],
              chunk_text = Some ''a cat''\<rparr>]"]
    image_stream_finalizes_once
      [where s = keyed and rd = reader and G = no_chunks
         and ps = "[Text (''hi'' @ CHR 0x0A # ''See image:''), InlineData (Some ''QUJD'') ''image/png'']"
         and cs = "[]"]
    v p g1 g2 e1 e2 e3 k
  show ?thesis by simp
qed


text \<open>
  Claim C7.  For a valid request whose parts can be built and every text stream the API
  opens, whether the stream completes or fails after any number of chunks: after the
  render of the created output, the output list is drawn once per received chunk, each
  time with the output's text set to the running string (the deltas of the chunks
  received so far, concatenated) and not loading.  When the stream completes, the list is
  drawn once more with the final text, which is the whole running string, or
  \<open>Text generation complete, but no text was returned.\<close> when that is empty, and the
  output is left with the final text, no image and not loading.  When the stream fails
  with an error object, the per-chunk updates are followed by one update with the error
  text; when it fails with \<open>null\<close> or \<open>undefined\<close>, by none.  The chunks \<open>He\<close> and
  \<open>llo\<close> give the texts \<open>He\<close>, \<open>Hello\<close> and the final \<open>Hello\<close>; a stream that
  fails after the chunk \<open>He\<close> still gives the update \<open>He\<close>.
\<close>

theorem text_stream_updates_per_chunk:
  "(valid_request s \<and> textModeParts rd (messages s) [] = Inr ps \<and>
    G (trim (apiKeyInput s)) (text_request (trim (systemMessage s)) ps) =
      Inr \<lparr>rs_chunks = cs, rs_error = err\<rparr> \<longrightarrow>
      new_renders s (snd (handleGenerateText rd G s)) =
        (created False s # outputs s) #
        map (\<lambda>t. \<lparr>o_id = String_of (nextOutputId s), o_imageUrl = None, o_text = t,
                   o_loading = False\<rparr> # outputs s)
          (running cs @
           (case err of
              None \<Rightarrow>
                [if concat (deltas cs) = []
                 then ''Text generation complete, but no text was returned.''
                 else concat (deltas cs)]
            | Some Nullish \<Rightarrow> []
            | Some (Error m) \<Rightarrow> [''Error: '' @ or_else m ''An unknown error occurred.''])) \<and>
      outputs (snd (handleGenerateText rd G s)) =
        last (new_renders s (snd (handleGenerateText rd G s))) \<and>
      (err = None \<longrightarrow>
         outputs (snd (handleGenerateText rd G s)) =
           \<lparr>o_id = String_of (nextOutputId s), o_imageUrl = None,
            o_text = (if concat (deltas cs) = []
                      then ''Text generation complete, but no text was returned.''
                      else concat (deltas cs)),
            o_loading = False\<rparr> # outputs s)) \<and>
   map (map o_text) (new_renders keyed (snd (handleGenerateText reader two_chunks keyed))) =
     [[''Generating...''], [''He''], [''Hello''], [''Hello'']] \<and>
   map (map o_loading) (new_renders keyed (snd (handleGenerateText reader two_chunks keyed))) =
     [[True], [False], [False], [False]] \<and>
   outputs (snd (handleGenerateText reader two_chunks keyed)) =
     [\<lparr>o_id = ''1'', o_imageUrl = None, o_text = ''Hello'', o_loading = False\<rparr>] \<and>
   map (map o_text) (new_renders keyed (snd (handleGenerateText reader failing_after_He keyed))) =
     [[''Generating...''], [''He''], [''Error: boom'']] \<and>
   map (map o_text) (new_renders keyed (snd (handleGenerateText reader undefined_after_He keyed))) =
     [[''Generating...''], [''He'']]"
proof (intro conjI impI; (elim conjE)?)
  assume v: "valid_request s" and p: "textModeParts rd (messages s) [] = Inr ps"
    and g: "G (trim (apiKeyInput s)) (text_request (trim (systemMessage s)) ps) =
      Inr \<lparr>rs_chunks = cs, rs_error = err\<rparr>"
  have c: "drawn False s (snd (handleGenerateText rd G s))
           (map (Pair None)
              (running cs @
               (case err of
                  None \<Rightarrow>
                    [or_else (Some (concat (deltas cs)))
                       ''Text generation complete, but no text was returned.'']
                | Some e \<Rightarrow> caught e)))"
    using handleGenerateText_streamed(1) [where G = G and rd = rd, OF v p g]
    by (cases err) simp_all
  have f: "finalized None t (created False s) =
      \<lparr>o_id = String_of (nextOutputId s), o_imageUrl = None, o_text = t, o_loading = False\<rparr>" for t
    by (simp add: finalized_def created_def)
  have e: "(case err of
              None \<Rightarrow>
                [or_else (Some (concat (deltas cs)))
                   ''Text generation complete, but no text was returned.'']
            | Some e \<Rightarrow> caught e) =
           (case err of
              None \<Rightarrow>
                [if concat (deltas cs) = []
                 then ''Text generation complete, but no text was returned.''
                 else concat (deltas cs)]
            | Some Nullish \<Rightarrow> []
            | Some (Error m) \<Rightarrow> [''Error: '' @ or_else m ''An unknown error occurred.''])"
    by (simp add: caught_def error_text_def or_else_def split: option.splits error.splits)
  show n: "new_renders s (snd (handleGenerateText rd G s)) =
        (created False s # outputs s) #
        map (\<lambda>t. \<lparr>o_id = String_of (nextOutputId s), o_imageUrl = None, o_text = t,
                   o_loading = False\<rparr> # outputs s)
          (running cs @
           (case err of
              None \<Rightarrow>
                [if concat (deltas cs) = []
                 then ''Text generation complete, but no text was returned.''
                 else concat (deltas cs)]
            | Some Nullish \<Rightarrow> []
            | Some (Error m) \<Rightarrow> [''Error: '' @ or_else m ''An unknown error occurred.'']))"
    unfolding new_renders_drawn [OF c] e [symmetric]
    by (simp add: renders_of_def f comp_def)
  show o: "outputs (snd (handleGenerateText rd G s)) =
        last (new_renders s (snd (handleGenerateText rd G s)))"
    using c by (simp add: new_renders_drawn [OF c] drawn_def)
  show "outputs (snd (handleGenerateText rd G s)) =
           \<lparr>o_id = String_of (nextOutputId s), o_imageUrl = None,
            o_text = (if concat (deltas cs) = []
                      then ''Text generation complete, but no text was returned.''
                      else concat (deltas cs)),
            o_loading = False\<rparr> # outputs s" if "err = None"
    unfolding o n using that by simp
next
  show "map (map o_text) (new_renders keyed (snd (handleGenerateText reader two_chunks keyed))) =
     [[''Generating...''], [''He''], [''Hello''], [''Hello'']]"
    by code_simp
  show "map (map o_loading) (new_renders keyed (snd (handleGenerateText reader two_chunks keyed))) =
     [[True], [False], [False], [False]]"
    by code_simp
  show "outputs (snd (handleGenerateText reader two_chunks keyed)) =
     [\<lparr>o_id = ''1'', o_imageUrl = None, o_text = ''Hello'', o_loading = False\<rparr>]"
    by code_simp
  show "map (map o_text) (new_renders keyed (snd (handleGenerateText reader failing_after_He keyed))) =
     [[''Generating...''], [''He''], [''Error: boom'']]"
    by code_simp
  show "map (map o_text) (new_renders keyed (snd (handleGenerateText reader undefined_after_He keyed))) =
     [[''Generating...''], [''He'']]"
    by code_simp
qed

theorem text_stream_updates_per_chunk_witness:
  "valid_request keyed \<and>
   textModeParts reader (messages keyed) [] =
     Inr [Text ''hi See image:'', InlineData (Some ''QUJD'') ''image/png''] \<and>
   new_renders keyed (snd (handleGenerateText reader two_chunks keyed)) =
     [[\<lparr>o_id = ''1'', o_imageUrl = None, o_text = ''Generating...'', o_loading = True\<rparr>],
      [\<lparr>o_id = ''1'', o_imageUrl = None, o_text = ''He'', o_loading = False\<rparr>],
      [\<lparr>o_id = ''1'', o_imageUrl = None, o_text = ''Hello'', o_loading = False\<rparr>],
      [\<lparr>o_id = ''1'', o_imageUrl = None, o_text = ''Hello'', o_loading = False\<rparr>]] \<and>
   new_renders keyed (snd (handleGenerateText reader failing_after_He keyed)) =
     [[\<lparr>o_id = ''1'', o_imageUrl = None, o_text = ''Generating...'', o_loading = True\<rparr>],
      [\<lparr>o_id = ''1'', o_imageUrl = None, o_text = ''He'', o_loading = False\<rparr>],
      [\<lparr>o_id = ''1'', o_imageUrl = None, o_text = ''Error: boom'', o_loading = False\<rparr>]]"
proof -
  have v: "valid_request keyed"
    by code_simp
  have p: "textModeParts reader (messages keyed) [] =
      Inr [Text ''hi See image:'', InlineData (Some ''QUJD'') ''image/png'']"
    by code_simp
  have g: "two_chunks (trim (apiKeyInput keyed)) (text_request (trim (systemMessage keyed))
        [Text ''hi See image:'', InlineData (Some ''QUJD'') ''image/png'']) =
      Inr \<lparr>rs_chunks = [\<lparr>chunk_parts = None, chunk_text = Some ''He''\<rparr>,
                        \<lparr>chunk_parts = None, chunk_text = Some ''llo''\<rparr>],
           rs_error = None\<rparr>"
    by (simp add: two_chunks_def)
  have h: "failing_after_He (trim (apiKeyInput keyed)) (text_request (trim (systemMessage keyed))
        [Text ''hi See image:'', InlineData (Some ''QUJD'') ''image/png'']) =
      Inr \<lparr>rs_chunks = [\<lparr>chunk_parts = None, chunk_text = Some ''He''\<rparr>],
           rs_error = Some (Error (Some ''boom''))\<rparr>"
    by (simp add: failing_after_He_def)
  have k: "created False keyed =
      \<lparr>o_id = ''1'', o_imageUrl = None, o_text = ''Generating...'', o_loading = True\<rparr>"
    "outputs keyed = []" "String_of (nextOutputId keyed) = ''1''"
    by code_simp+
  have r: "running [\<lparr>chunk_parts = None, chunk_text = Some ''He''\<rparr>,
              \<lparr>chunk_parts = None, chunk_text = Some ''llo''\<rparr>] = [''He'', ''Hello'']"
    "deltas [\<lparr>chunk_parts = None, chunk_text = Some ''He''\<rparr>,
             \<lparr>chunk_parts = None, chunk_text = Some ''llo''\<rparr>] = [''He'', ''llo'']"
    by code_simp+
  have q: "running [\<lparr>chunk_parts = None, chunk_text = Some ''He''\<rparr>] = [''He'']"
    by code_simp
  have q': "or_else (Some ''boom'') ''An unknown error occurred.'' = ''boom''"
    by (simp add: or_else_def)
  note a = text_stream_updates_per_chunk
    [where s = keyed and rd = reader and G = two_chunks
       and cs = "[\<lparr>chunk_parts = None, chunk_text = Some ''He''\<rparr>,
                  \<lparr>chunk_parts = None, chunk_text = Some ''llo''\<rparr>]"
       and err = None
       and ps = "[Text ''hi See image:'', InlineData (Some ''QUJD'') ''image/png'']",
     THEN conjunct1, rule_format, OF conjI [OF v conjI [OF p g]], THEN conjunct1]
  note b = text_stream_updates_per_chunk
    [where s = keyed and rd = reader and G = failing_after_He
       and cs = "[\<lparr>chunk_parts = None, chunk_text = Some ''He''\<rparr>]"
       and err = "Some (Error (Some ''boom''))"
       and ps = "[Text ''hi See image:'', InlineData (Some ''QUJD'') ''image/png'']",
     THEN conjunct1, rule_format, OF conjI [OF v conjI [OF p h]], THEN conjunct1]
  have a': "new_renders keyed (snd (handleGenerateText reader two_chunks keyed)) =
     [[\<lparr>o_id = ''1'', o_imageUrl = None, o_text = ''Generating...'', o_loading = True\<rparr>],
      [\<lparr>o_id = ''1'', o_imageUrl = None, o_text = ''He'', o_loading = False\<rparr>],
      [\<lparr>o_id = ''1'', o_imageUrl = None, o_text = ''Hello'', o_loading = False\<rparr>],
      [\<lparr>o_id = ''1'', o_imageUrl = None, o_text = ''Hello'', o_loading = False\<rparr>]]"
    unfolding a k r by simp
  have b': "new_renders keyed (snd (handleGenerateText reader failing_after_He keyed)) =
     [[\<lparr>o_id = ''1'', o_imageUrl = None, o_text = ''Generating...'', o_loading = True\<rparr>],
      [\<lparr>o_id = ''1'', o_imageUrl = None, o_text = ''He'', o_loading = False\<rparr>],
      [\<lparr>o_id = ''1'', o_imageUrl = None, o_text = ''Error: boom'', o_loading = False\<rparr>]]"
    unfolding b k q by (simp add: q')
  from v p a' b' show ?thesis by (intro conjI)
qed

text \<open>
  Claim C4 fails on the code when a failure value is \<open>null\<close> or \<open>undefined\<close>.  With a
  credential and a message item, and an API whose \<open>generateContentStream\<close> rejects with
  \<open>undefined\<close>, the \<open>catch\<close> block of either entry operation reads \<open>.message\<close> of that
  value, which throws a \<open>TypeError\<close> before \<open>updateOutput\<close> is called: the operation
  rejects, the output list has been drawn once only, with the created output, no update
  clears \<open>loading\<close>, and the output stays loading.
\<close>

theorem output_stays_loading_on_undefined_rejection:
  "fst (handleGenerateImage reader rejecting_undefined keyed) = Some TypeError \<and>
   new_renders keyed (snd (handleGenerateImage reader rejecting_undefined keyed)) =
     [[\<lparr>o_id = ''1'', o_imageUrl = Some PLACEHOLDER_IMAGE, o_text = ''Generating...'',
        o_loading = True\<rparr>]] \<and>
   clearings (map (loading_of ''1'')
     (new_renders keyed (snd (handleGenerateImage reader rejecting_undefined keyed)))) = 0 \<and>
   loading_of ''1'' (outputs (snd (handleGenerateImage reader rejecting_undefined keyed))) =
     Some True \<and>
   fst (handleGenerateText reader rejecting_undefined keyed) = Some TypeError \<and>
   new_renders keyed (snd (handleGenerateText reader rejecting_undefined keyed)) =
     [[\<lparr>o_id = ''1'', o_imageUrl = None, o_text = ''Generating...'', o_loading = True\<rparr>]] \<and>
   clearings (map (loading_of ''1'')
     (new_renders keyed (snd (handleGenerateText reader rejecting_undefined keyed)))) = 0 \<and>
   loading_of ''1'' (outputs (snd (handleGenerateText reader rejecting_undefined keyed))) =
     Some True"
  by (intro conjI; code_simp)

section \<open>Template loading\<close>

text \<open>The loop stops at the second entry when its fetch fails.\<close>

lemma addTemplateMessages_second_fails:
  assumes f1: "fetchable fetch e1" and i2: "tm_image e2 = Some url" and f2: "fetch url = Inl err"
  shows "addTemplateMessages fetch (e1 # e2 # rest) s =
     (Some err, s\<lparr>nextId := nextId s + 2,
                  messages := messages s @ [loaded fetch (String_of (nextId s)) e1]\<rparr>)"
  using f1 i2 f2
  by (auto simp: fetchable_def loaded_def Let_def split: option.splits sum.splits)

lemma loadTemplate_second_fails:
  assumes t: "asyncTemplates name = Some (Inr template)"
    and n: "filter (\<lambda>m. tm_role m \<noteq> System) template = e1 # e2 # rest"
    and f1: "fetchable fetch e1" and i2: "tm_image e2 = Some url" and f2: "fetch url = Inl err"
  shows "messages (loadTemplate asyncTemplates fetch name s) = [loaded fetch (String_of 1) e1]"
    and "nextId (loadTemplate asyncTemplates fetch name s) = 3"
    and "alerts (loadTemplate asyncTemplates fetch name s) = alerts s @ [''Failed to load template.'']"
    and "rendered_messages (loadTemplate asyncTemplates fetch name s) = rendered_messages s"
    and "store_messages (loadTemplate asyncTemplates fetch name s) = store_messages s"
  by (simp_all add: loadTemplate_def t n Let_def
      addTemplateMessages_second_fails[where fetch = fetch, OF f1 i2 f2]
      alert_def saveSystemMessage_def split: option.splits del: addTemplateMessages.simps)

text \<open>
  Claim C3 does not hold as stated: when the image of the second entry cannot be fetched,
  the message list is not empty afterwards.  With the template \<open>two_entries\<close> and a
  \<open>fetch\<close> that fails, the list holds the first entry's item.
\<close>

theorem failed_template_load_keeps_first_entry:
  "messages (loadTemplate (\<lambda>name. Some (Inr two_entries)) failing_fetch ''t'' init) =
     [\<lparr>m_id = ''1'', m_text = ''first'', m_image = None\<rparr>] \<and>
   alerts (loadTemplate (\<lambda>name. Some (Inr two_entries)) failing_fetch ''t'' init) =
     [''Failed to load template.'']"
  by code_simp

text \<open>
  Claim C3, amended.  For every template whose entries other than system entries start
  with an entry that loads (it has no image, or its image is fetched) followed by an entry
  whose image fetch fails, the load stops at the failing entry and alerts the user with
  \<open>Failed to load template.\<close>; afterwards the message list holds exactly the item of the
  first entry, with id \<open>1\<close>, the id counter is 3, and the list has been neither drawn
  nor stored.
\<close>

theorem failed_template_load_stops_at_entry:
  assumes "asyncTemplates name = Some (Inr template)"
    and "filter (\<lambda>m. tm_role m \<noteq> System) template = entry # failing # rest"
    and "fetchable fetch entry" and "tm_image failing = Some url" and "fetch url = Inl err"
  shows "messages (loadTemplate asyncTemplates fetch name s) = [loaded fetch ''1'' entry] \<and>
         nextId (loadTemplate asyncTemplates fetch name s) = 3 \<and>
         alerts (loadTemplate asyncTemplates fetch name s) = alerts s @ [''Failed to load template.''] \<and>
         rendered_messages (loadTemplate asyncTemplates fetch name s) = rendered_messages s \<and>
         store_messages (loadTemplate asyncTemplates fetch name s) = store_messages s"
proof -
  have one: "String_of (Suc 0) = ''1''"
    by code_simp
  from loadTemplate_second_fails
    [where asyncTemplates = asyncTemplates and fetch = fetch and s = s, OF assms]
  show ?thesis
    by (simp add: one)
qed

theorem failed_template_load_stops_at_entry_witness:
  "filter (\<lambda>m. tm_role m \<noteq> System) two_entries =
     [\<lparr>tm_role = User, tm_text = ''first'', tm_image = None\<rparr>,
      \<lparr>tm_role = User, tm_text = ''second'', tm_image = Some ''data:,x''\<rparr>] \<and>
   fetchable failing_fetch \<lparr>tm_role = User, tm_text = ''first'', tm_image = None\<rparr> \<and>
   failing_fetch ''data:,x'' = Inl (Error (Some ''Failed to fetch'')) \<and>
   messages (loadTemplate (\<lambda>name. Some (Inr two_entries)) failing_fetch ''t'' (addItem init)) =
     [\<lparr>m_id = ''1'', m_text = ''first'', m_image = None\<rparr>] \<and>
   nextId (loadTemplate (\<lambda>name. Some (Inr two_entries)) failing_fetch ''t'' (addItem init)) = 3 \<and>
   alerts (loadTemplate (\<lambda>name. Some (Inr two_entries)) failing_fetch ''t'' (addItem init)) =
     [''Failed to load template.'']"
proof -
  have b: "filter (\<lambda>m. tm_role m \<noteq> System) two_entries =
     \<lparr>tm_role = User, tm_text = ''first'', tm_image = None\<rparr> #
     \<lparr>tm_role = User, tm_text = ''second'', tm_image = Some ''data:,x''\<rparr> # []"
    by (simp add: two_entries_def)
  have c: "fetchable failing_fetch \<lparr>tm_role = User, tm_text = ''first'', tm_image = None\<rparr>"
    by (simp add: fetchable_def)
  have d: "tm_image \<lparr>tm_role = User, tm_text = ''second'', tm_image = Some ''data:,x''\<rparr> =
      Some ''data:,x''"
    by simp
  have e: "failing_fetch ''data:,x'' = Inl (Error (Some ''Failed to fetch''))"
    by (simp add: failing_fetch_def)
  have f: "alerts (addItem init) = []"
    by code_simp
  from failed_template_load_stops_at_entry
    [where asyncTemplates = "\<lambda>name. Some (Inr two_entries)" and name = "''t''"
       and template = two_entries and fetch = failing_fetch and s = "addItem init"
       and entry = "\<lparr>tm_role = User, tm_text = ''first'', tm_image = None\<rparr>"
       and failing = "\<lparr>tm_role = User, tm_text = ''second'', tm_image = Some ''data:,x''\<rparr>"
       and rest = "[]" and url = "''data:,x''" and err = "Error (Some ''Failed to fetch'')"]
    b c d e f
  show ?thesis by (simp add: loaded_def)
qed

end
